theory Spec2Isabelle
  imports Complex_Main "HOL-Library.Sublist"
begin

section \<open>Strings and POSIX paths\<close>

text \<open>
  Python strings are modelled as \<^typ>\<open>string\<close>; the case conversions are the ASCII
  ones (\<^verbatim>\<open>str.lower\<close>, \<^verbatim>\<open>str.upper\<close> and \<^verbatim>\<open>str.title\<close> restricted to the letters
  A-Z and a-z), every other character is left alone.  Paths follow \<^verbatim>\<open>posixpath\<close> and
  \<^verbatim>\<open>pathlib.PurePosixPath\<close>: the separator is \<^verbatim>\<open>/\<close>.
\<close>

definition upper_letters :: string where
  "upper_letters = ''ABCDEFGHIJKLMNOPQRSTUVWXYZ''"

definition lower_letters :: string where
  "lower_letters = ''abcdefghijklmnopqrstuvwxyz''"

definition lower_char :: "char \<Rightarrow> char" where
  "lower_char c = (case map_of (zip upper_letters lower_letters) c of Some d \<Rightarrow> d | None \<Rightarrow> c)"

definition upper_char :: "char \<Rightarrow> char" where
  "upper_char c = (case map_of (zip lower_letters upper_letters) c of Some d \<Rightarrow> d | None \<Rightarrow> c)"

definition str_lower :: "string \<Rightarrow> string" where
  "str_lower s = map lower_char s"

definition str_upper :: "string \<Rightarrow> string" where
  "str_upper s = map upper_char s"

definition is_cased :: "char \<Rightarrow> bool" where
  "is_cased c = (c \<in> set upper_letters \<or> c \<in> set lower_letters)"

text \<open>\<^verbatim>\<open>str.title\<close>: a cased character is upper-cased when the previous character is not
  cased and lower-cased otherwise.\<close>

fun title_from :: "bool \<Rightarrow> string \<Rightarrow> string" where
  "title_from prev [] = []"
| "title_from prev (c # cs) =
     (if is_cased c then (if prev then lower_char c else upper_char c) # title_from True cs
      else c # title_from False cs)"

definition str_title :: "string \<Rightarrow> string" where
  "str_title s = title_from False s"

text \<open>\<^verbatim>\<open>s.startswith(t)\<close> and \<^verbatim>\<open>s.replace(".", "")\<close>.\<close>

definition startswith :: "string \<Rightarrow> string \<Rightarrow> bool" where
  "startswith s t = prefix t s"

definition remove_dots :: "string \<Rightarrow> string" where
  "remove_dots s = filter (\<lambda>c. c \<noteq> CHR ''.'') s"

text \<open>\<^verbatim>\<open>str(n)\<close> for a natural number, and the format \<^verbatim>\<open>{n:02d}\<close>.\<close>

definition digit_char :: "nat \<Rightarrow> char" where
  "digit_char d = ''0123456789'' ! d"

fun string_of_nat :: "nat \<Rightarrow> string" where
  "string_of_nat n =
     (if n < 10 then [digit_char n] else string_of_nat (n div 10) @ [digit_char (n mod 10)])"

declare string_of_nat.simps [simp del]

definition two_digits :: "nat \<Rightarrow> string" where
  "two_digits n = (if n < 10 then CHR ''0'' # string_of_nat n else string_of_nat n)"

text \<open>\<^verbatim>\<open>s.split(sep)\<close> for a one-character separator.\<close>

fun split_on :: "char \<Rightarrow> string \<Rightarrow> string list" where
  "split_on sep [] = [[]]"
| "split_on sep (c # cs) =
     (if c = sep then [] # split_on sep cs
      else (case split_on sep cs of [] \<Rightarrow> [[c]] | w # ws \<Rightarrow> (c # w) # ws))"

fun join_with :: "string \<Rightarrow> string list \<Rightarrow> string" where
  "join_with sep [] = []"
| "join_with sep [x] = x"
| "join_with sep (x # y # ys) = x @ sep @ join_with sep (y # ys)"

text \<open>\<^verbatim>\<open>posixpath.splitroot\<close>: the root is \<^verbatim>\<open>//\<close> for exactly two leading slashes,
  \<^verbatim>\<open>/\<close> for any other number of leading slashes, and empty for a relative path.\<close>

definition posix_root :: "string \<Rightarrow> string" where
  "posix_root p =
     (if take 1 p \<noteq> ''/'' then []
      else if take 1 (drop 1 p) \<noteq> ''/'' \<or> take 1 (drop 2 p) = ''/'' then ''/''
      else ''//'')"

definition path_components :: "string \<Rightarrow> string list" where
  "path_components p = filter (\<lambda>x. x \<noteq> [] \<and> x \<noteq> ''.'') (split_on CHR ''/'' p)"

text \<open>\<^verbatim>\<open>Path(p).parts\<close>.\<close>

definition path_parts :: "string \<Rightarrow> string list" where
  "path_parts p =
     (if posix_root p = [] then path_components p else posix_root p # path_components p)"

text \<open>\<^verbatim>\<open>str(path)\<close> of a path given by its root and components.\<close>

definition path_str :: "string \<Rightarrow> string list \<Rightarrow> string" where
  "path_str anchor comps =
     (if anchor = [] \<and> comps = [] then ''.'' else anchor @ join_with ''/'' comps)"

text \<open>\<^verbatim>\<open>str(Path(p))\<close>, \<^verbatim>\<open>str(Path(p).parent)\<close>, \<^verbatim>\<open>Path(p).name\<close>, \<^verbatim>\<open>.suffix\<close> and
  \<^verbatim>\<open>.stem\<close>.\<close>

definition pure_path :: "string \<Rightarrow> string" where
  "pure_path p = path_str (posix_root p) (path_components p)"

definition path_parent :: "string \<Rightarrow> string" where
  "path_parent p = path_str (posix_root p) (butlast (path_components p))"

definition path_name :: "string \<Rightarrow> string" where
  "path_name p = (case path_components p of [] \<Rightarrow> [] | c # cs \<Rightarrow> last (c # cs))"

definition name_suffix :: "string \<Rightarrow> string" where
  "name_suffix name =
     (let post = rev (takeWhile (\<lambda>c. c \<noteq> CHR ''.'') (rev name))
      in if CHR ''.'' \<in> set name \<and> length post + 1 < length name \<and> post \<noteq> []
         then CHR ''.'' # post else [])"

definition path_suffix :: "string \<Rightarrow> string" where
  "path_suffix p = name_suffix (path_name p)"

definition path_stem :: "string \<Rightarrow> string" where
  "path_stem p =
     (let name = path_name p in take (length name - length (name_suffix name)) name)"

text \<open>\<^verbatim>\<open>os.path.join(a, b)\<close>, \<^verbatim>\<open>os.path.basename\<close>, \<^verbatim>\<open>os.path.dirname\<close>,
  \<^verbatim>\<open>os.path.splitext\<close> and \<^verbatim>\<open>x.count(os.sep)\<close>.\<close>

definition os_path_join :: "string \<Rightarrow> string \<Rightarrow> string" where
  "os_path_join a b =
     (if startswith b ''/'' then b
      else if a = [] \<or> last a = CHR ''/'' then a @ b
      else a @ ''/'' @ b)"

definition os_path_basename :: "string \<Rightarrow> string" where
  "os_path_basename p = rev (takeWhile (\<lambda>c. c \<noteq> CHR ''/'') (rev p))"

definition os_path_dirname :: "string \<Rightarrow> string" where
  "os_path_dirname p =
     (let head = rev (dropWhile (\<lambda>c. c \<noteq> CHR ''/'') (rev p))
      in if head \<noteq> [] \<and> head \<noteq> replicate (length head) CHR ''/''
         then rev (dropWhile (\<lambda>c. c = CHR ''/'') (rev head)) else head)"

definition os_path_splitext :: "string \<Rightarrow> string \<times> string" where
  "os_path_splitext p =
     (let name = os_path_basename p;
          post = rev (takeWhile (\<lambda>c. c \<noteq> CHR ''.'') (rev name));
          pre = take (length name - length post - 1) name
      in if CHR ''.'' \<in> set name \<and> list_ex (\<lambda>c. c \<noteq> CHR ''.'') pre
         then (take (length p - length post - 1) p, drop (length p - length post - 1) p)
         else (p, []))"

definition count_sep :: "string \<Rightarrow> nat" where
  "count_sep x = length (filter (\<lambda>c. c = CHR ''/'') x)"

text \<open>\<^verbatim>\<open>Path(p) / name\<close> rendered back to a string.\<close>

definition path_div :: "string \<Rightarrow> string \<Rightarrow> string" where
  "path_div p name = pure_path (os_path_join p name)"

section \<open>Configuration\<close>

record config =
  SYSTEM_PROTECTED :: "string list"
  JUNK_FOLDER :: string
  FILE_MAP :: "(string \<times> (string \<times> string list) list) list"

definition FILE_MAP_default :: "(string \<times> (string \<times> string list) list) list" where
  "FILE_MAP_default =
  [
   (''Documents'',
     [
      (''PDF'', [''.pdf'']),
      (''Word'', [''.doc'', ''.docx'', ''.dot'', ''.dotx'', ''.docm'']),
      (''PowerPoint'', [''.ppt'', ''.pptx'', ''.pps'', ''.ppsx'', ''.odp'', ''.potx'']),
      (''Excel'', [''.xls'', ''.xlsx'', ''.xlsm'', ''.csv'', ''.ods'', ''.xlsb'']),
      (''Text'', [''.txt'', ''.rtf'', ''.md'', ''.tex'', ''.log'', ''.readme'', ''.rst'']),
      (''eBooks'', [''.epub'', ''.mobi'', ''.azw3'', ''.djvu'', ''.fb2'', ''.lit'']),
      (''XPS'', [''.xps'', ''.oxps'']),
      (''OtherDocs'', [''.odt'', ''.abw'', ''.pages'', ''.wpd'', ''.wps'', ''.gdoc''])]),
   (''Images'',
     [
      (''JPEG'', [''.jpg'', ''.jpeg'', ''.jpe'', ''.jfif'']),
      (''PNG'', [''.png'']),
      (''GIF'', [''.gif'']),
      (''WebP'', [''.webp'']),
      (''BMP'', [''.bmp'', ''.dib'']),
      (''TIFF'', [''.tif'', ''.tiff'']),
      (''HEIC'', [''.heic'', ''.heif'']),
      (''RAW'', [''.raw'', ''.cr2'', ''.nef'', ''.arw'', ''.orf'', ''.sr2'', ''.dng'', ''.rw2'']),
      (''SVG'', [''.svg'', ''.svgz'']),
      (''OtherImages'', [''.ico'', ''.icns'', ''.ppm'', ''.pgm'', ''.pbm'', ''.psd'', ''.xcf'', ''.ai''])]),
   (''Videos'',
     [
      (''MP4'', [''.mp4'', ''.m4v'']),
      (''MKV'', [''.mkv'']),
      (''AVI'', [''.avi'']),
      (''MOV'', [''.mov'', ''.qt'']),
      (''WMV'', [''.wmv'', ''.asf'']),
      (''FLV'', [''.flv'', ''.f4v'']),
      (''WebM'', [''.webm'']),
      (''MTS'', [''.mts'', ''.m2ts'', ''.ts'']),
      (''3GP'', [''.3gp'', ''.3g2'']),
      (''OtherVideos'', [''.vob'', ''.mpg'', ''.mpeg'', ''.ogv'', ''.rmvb'', ''.divx'', ''.m2v''])]),
   (''Audio'',
     [
      (''MP3'', [''.mp3'']),
      (''WAV'', [''.wav'']),
      (''FLAC'', [''.flac'']),
      (''AAC'', [''.aac'', ''.m4a'']),
      (''OGG'', [''.ogg'', ''.oga'']),
      (''WMA'', [''.wma'']),
      (''MIDI'', [''.mid'', ''.midi'']),
      (''OtherAudio'', [''.opus'', ''.amr'', ''.aiff'', ''.au'', ''.ra'', ''.ac3'', ''.dts''])]),
   (''Compressed'',
     [
      (''ZIP'', [''.zip'', ''.zipx'']),
      (''RAR'', [''.rar'', ''.r00'', ''.r01'', ''.r02'']),
      (''7Z'', [''.7z'']),
      (''TAR'', [''.tar'', ''.tar.gz'', ''.tgz'', ''.tar.bz2'', ''.tar.xz'']),
      (''GZ'', [''.gz'', ''.bz2'', ''.xz'', ''.lz'', ''.lzma'']),
      (''ISO'', [''.iso'', ''.img'', ''.bin'', ''.cue'', ''.mdf'']),
      (''DMG'', [''.dmg'']),
      (''OtherArchives'', [''.cab'', ''.ace'', ''.z'', ''.sit'', ''.sitx'', ''.pak''])]),
   (''Executables'',
     [
      (''Windows'', [''.exe'', ''.msi'', ''.scr'', ''.com'', ''.bat'', ''.cmd'']),
      (''Linux'', [''.deb'', ''.rpm'', ''.run'', ''.sh'', ''.appimage'', ''.snap'']),
      (''Mac'', [''.pkg'', ''.dmg'', ''.app'']),
      (''Scripts'', [''.ps1'', ''.vbs'', ''.py'', ''.pl'', ''.rb'']),
      (''OtherBins'', [''.bin'', ''.out'', ''.elf'', ''.so'', ''.dll''])]),
   (''MobileApps'',
     [
      (''Android'', [''.apk'', ''.xapk'', ''.apks'', ''.aab'']),
      (''iOS'', [''.ipa''])]),
   (''Code'',
     [
      (''Python'', [''.py'', ''.pyw'', ''.pyx'', ''.pyi'', ''.ipynb'']),
      (''Web'', [''.html'', ''.htm'', ''.css'', ''.js'', ''.ts'', ''.jsx'', ''.tsx'', ''.vue'', ''.svelte'']),
      (''Java'', [''.java'', ''.jar'', ''.class'', ''.scala'', ''.kt'']),
      (''C_CPP'', [''.c'', ''.cpp'', ''.cc'', ''.cxx'', ''.h'', ''.hpp'', ''.hxx'']),
      (''Scripts'', [''.sh'', ''.bash'', ''.zsh'', ''.fish'', ''.csh'', ''.tcsh'']),
      (''Data'', [''.json'', ''.xml'', ''.yml'', ''.yaml'', ''.toml'', ''.ini'', ''.cfg'']),
      (''PHP'', [''.php'', ''.phtml'']),
      (''SQL'', [''.sql'', ''.db'', ''.sqlite'', ''.sqlite3'']),
      (''Other'', [''.rs'', ''.go'', ''.pl'', ''.rb'', ''.lua'', ''.cs'', ''.swift'', ''.dart'', ''.r''])]),
   (''System'',
     [
      (''Logs'', [''.log'', ''.trace'', ''.out'']),
      (''Config'', [''.ini'', ''.cfg'', ''.conf'', ''.reg'', ''.plist'', ''.settings'']),
      (''Cache'', [''.tmp'', ''.temp'', ''.bak'', ''.old'', ''.swp'', ''.swo'', ''.orig'', ''.cache''])]),
   (''Fonts'',
     [
      (''TrueType'', [''.ttf'', ''.ttc'']),
      (''OpenType'', [''.otf'']),
      (''Other'', [''.woff'', ''.woff2'', ''.eot'', ''.pfb'', ''.pfm''])]),
   (''3D_Models'',
     [
      (''Common'', [''.obj'', ''.fbx'', ''.dae'', ''.3ds'', ''.blend'', ''.max'', ''.ma'', ''.mb'']),
      (''CAD'', [''.dwg'', ''.dxf'', ''.step'', ''.stp'', ''.iges'', ''.igs'']),
      (''STL'', [''.stl'', ''.ply''])])]"

text \<open>\<^verbatim>\<open>Config\<close> of \<^verbatim>\<open>enhanced_file_organizer.py\<close>.\<close>

definition default_config :: config where
  "default_config =
     \<lparr>SYSTEM_PROTECTED =
        [''Windows'', ''Android'', ''Program Files'', ''System32'', ''System Volume Information'',
         ''ProgramData'', ''Recovery'', ''Boot'', ''$Recycle.Bin'', ''hiberfil.sys'',
         ''pagefile.sys''],
      JUNK_FOLDER = ''Junk'',
      FILE_MAP = FILE_MAP_default\<rparr>"

text \<open>\<^verbatim>\<open>Config\<close> of \<^verbatim>\<open>enhanced_file_organizer_improved.py\<close>.\<close>

definition improved_config :: config where
  "improved_config =
     \<lparr>SYSTEM_PROTECTED =
        [''Windows'', ''Android'', ''Program Files'', ''Program Files (x86)'', ''System32'',
         ''System Volume Information'', ''ProgramData'', ''Recovery'', ''Boot'', ''$Recycle.Bin'',
         ''hiberfil.sys'', ''pagefile.sys'', ''swapfile.sys'', ''Windows.old'', ''Intel'', ''AMD'',
         ''NVIDIA''],
      JUNK_FOLDER = ''Junk'',
      FILE_MAP = FILE_MAP_default\<rparr>"

section \<open>Path Guard\<close>

text \<open>
  \<^verbatim>\<open>is_protected_path\<close> (the same text in both engines).  The first loop returns at the
  first denylist entry whose lower-cased text occurs anywhere in the lower-cased path
  (\<^verbatim>\<open>protected.lower() in path_lower\<close> is Python's substring test, \<^const>\<open>sublist\<close>); the
  second test looks the indicator tokens up among the parts of the lower-cased path.
\<close>

fun matches_protected :: "string list \<Rightarrow> string \<Rightarrow> bool" where
  "matches_protected [] path_lower = False"
| "matches_protected (protected # rest) path_lower =
     (if sublist (str_lower protected) path_lower then True
      else matches_protected rest path_lower)"

definition system_indicators :: "string list" where
  "system_indicators = [''system'', ''windows'', ''program files'', ''programdata'', ''recovery'']"

definition is_protected_path :: "config \<Rightarrow> string \<Rightarrow> bool" where
  "is_protected_path cfg path =
     (let path_lower = str_lower path;
          parts = path_parts path_lower
      in if matches_protected (SYSTEM_PROTECTED cfg) path_lower then True
         else if list_ex (\<lambda>indicator. indicator \<in> set parts) system_indicators then True
         else False)"

text \<open>The reading of the Path Guard by path components: some component of the path equals
  a denylist entry up to case, or is an indicator token up to case.\<close>

definition component_protected :: "config \<Rightarrow> string \<Rightarrow> bool" where
  "component_protected cfg path =
     list_ex (\<lambda>c. list_ex (\<lambda>p. str_lower c = str_lower p) (SYSTEM_PROTECTED cfg)
                  \<or> str_lower c \<in> set system_indicators) (path_parts path)"

section \<open>Data model\<close>

datatype OrganizationMode = BY_TYPE | BY_DATE | BY_SIZE | BY_EXTENSION

datatype DuplicateHandling = RENAME | SKIP | REPLACE | MERGE_TO_DUPLICATES

record FileOperation =
  source :: string
  destination :: string
  operation :: string
  timestamp :: string
  size_bytes :: int
  file_hash :: "string option"

text \<open>The dictionary \<^verbatim>\<open>self.stats\<close>; its keys are fixed in \<^verbatim>\<open>__init__\<close>.\<close>

record stats =
  moved :: nat
  skipped :: nat
  errors :: nat
  duplicates :: nat
  total_size :: int
  protected_skipped :: nat
  empty_folders_removed :: nat

text \<open>The mutable fields of \<^verbatim>\<open>FileOrganizer\<close>.\<close>

record organizer =
  operations_log :: "FileOperation list"
  duplicate_map :: "string \<rightharpoonup> string list"
  stats :: stats

definition init_organizer :: organizer where
  "init_organizer =
     \<lparr>operations_log = [], duplicate_map = Map.empty,
      stats = \<lparr>moved = 0, skipped = 0, errors = 0, duplicates = 0, total_size = 0,
               protected_skipped = 0, empty_folders_removed = 0\<rparr>\<rparr>"

section \<open>The operating system\<close>

text \<open>
  Every exception the engine catches as \<^verbatim>\<open>(OSError, PermissionError, shutil.Error)\<close> is an
  \<^verbatim>\<open>OSError\<close> or one of its subclasses.
\<close>

datatype io_error =
  OSError | PermissionError | FileNotFoundError | FileExistsError | NotADirectoryError
  | ShutilError

text \<open>An \<^verbatim>\<open>os.DirEntry\<close>: name, path, and the answers of \<^verbatim>\<open>is_file()\<close> and \<^verbatim>\<open>is_dir()\<close>.\<close>

record dir_entry =
  entry_name :: string
  entry_path :: string
  entry_is_file :: bool
  entry_is_dir :: bool

text \<open>
  The library and system calls of the engine, over a state \<^typ>\<open>'w\<close> of the outside world
  (file system and clock).  A query reads the world; a call that changes the file system
  returns the new world and the exception it raised, if any (a call that raises may still
  have changed the world).  The engine's theorems hold for every such interface; a small
  file system implementing it is defined below.
  \<^item> \<^verbatim>\<open>path_exists\<close>: \<^verbatim>\<open>os.path.exists\<close>, \<^verbatim>\<open>Path.exists\<close>;
  \<^item> \<^verbatim>\<open>path_isdir\<close>: \<^verbatim>\<open>os.path.isdir\<close>;
  \<^item> \<^verbatim>\<open>mkdir_parents\<close>: \<^verbatim>\<open>Path.mkdir(parents=True, exist_ok=True)\<close>,
    \<^verbatim>\<open>os.makedirs(exist_ok=True)\<close>;
  \<^item> \<^verbatim>\<open>mkdir_exist_ok\<close>: \<^verbatim>\<open>Path.mkdir(exist_ok=True)\<close>;
  \<^item> \<^verbatim>\<open>read_md5\<close>: opening the file, reading it in chunks and \<^verbatim>\<open>hexdigest()\<close>;
  \<^item> \<^verbatim>\<open>getsize\<close>: \<^verbatim>\<open>os.path.getsize\<close>;
  \<^item> \<^verbatim>\<open>mtime_year_month\<close>, \<^verbatim>\<open>ctime_year_month\<close>: year and month of
    \<^verbatim>\<open>datetime.fromtimestamp\<close> of \<^verbatim>\<open>st_mtime\<close> and of \<^verbatim>\<open>os.path.getctime\<close>;
  \<^item> \<^verbatim>\<open>shutil_move\<close>, \<^verbatim>\<open>scandir\<close>, \<^verbatim>\<open>rmdir\<close>: \<^verbatim>\<open>shutil.move\<close>, \<^verbatim>\<open>list(os.scandir(d))\<close>,
    \<^verbatim>\<open>os.rmdir\<close>;
  \<^item> \<^verbatim>\<open>walk_bottom_up\<close>: the triples yielded by \<^verbatim>\<open>os.walk(top, topdown=False)\<close>;
  \<^item> \<^verbatim>\<open>guess_type\<close>: \<^verbatim>\<open>mimetypes.guess_type\<close>, the type split at its \<^verbatim>\<open>/\<close>;
  \<^item> \<^verbatim>\<open>now_stamp\<close>, \<^verbatim>\<open>now_iso\<close>: \<^verbatim>\<open>datetime.now()\<close> as \<^verbatim>\<open>%Y%m%d_%H%M%S\<close> and as
    \<^verbatim>\<open>isoformat()\<close>.
\<close>

record 'w os_iface =
  path_exists :: "'w \<Rightarrow> string \<Rightarrow> bool"
  path_isdir :: "'w \<Rightarrow> string \<Rightarrow> bool"
  mkdir_parents :: "'w \<Rightarrow> string \<Rightarrow> 'w \<times> io_error option"
  mkdir_exist_ok :: "'w \<Rightarrow> string \<Rightarrow> 'w \<times> io_error option"
  read_md5 :: "'w \<Rightarrow> string \<Rightarrow> io_error + string"
  getsize :: "'w \<Rightarrow> string \<Rightarrow> io_error + int"
  mtime_year_month :: "'w \<Rightarrow> string \<Rightarrow> io_error + nat \<times> nat"
  ctime_year_month :: "'w \<Rightarrow> string \<Rightarrow> io_error + nat \<times> nat"
  shutil_move :: "'w \<Rightarrow> string \<Rightarrow> string \<Rightarrow> 'w \<times> io_error option"
  scandir :: "'w \<Rightarrow> string \<Rightarrow> io_error + dir_entry list"
  rmdir :: "'w \<Rightarrow> string \<Rightarrow> 'w \<times> io_error option"
  walk_bottom_up :: "'w \<Rightarrow> string \<Rightarrow> (string \<times> string list \<times> string list) list"
  guess_type :: "string \<Rightarrow> (string \<times> string) option"
  now_stamp :: "'w \<Rightarrow> string"
  now_iso :: "'w \<Rightarrow> string"

section \<open>Category Registry and Classifier\<close>

text \<open>\<^verbatim>\<open>calculate_file_hash\<close>: a read error is logged and gives \<^verbatim>\<open>None\<close>.\<close>

definition calculate_file_hash :: "'w os_iface \<Rightarrow> 'w \<Rightarrow> string \<Rightarrow> string option" where
  "calculate_file_hash os w file_path =
     (case read_md5 os w file_path of Inl e \<Rightarrow> None | Inr digest \<Rightarrow> Some digest)"

definition mime_category_map :: "(string \<times> string) list" where
  "mime_category_map =
     [(''text'', ''Documents''), (''image'', ''Images''), (''video'', ''Videos''),
      (''audio'', ''Audio''), (''application'', ''Documents'')]"

definition detect_mime_type :: "'w os_iface \<Rightarrow> string \<Rightarrow> string \<times> string" where
  "detect_mime_type os file_path =
     (case guess_type os file_path of
        None \<Rightarrow> (''Others'', ''Unknown'')
      | Some (main_type, sub_type) \<Rightarrow>
          ((case map_of mime_category_map main_type of Some c \<Rightarrow> c | None \<Rightarrow> ''Others''),
           str_title sub_type))"

text \<open>The two nested loops of \<^verbatim>\<open>get_file_category\<close> over \<^verbatim>\<open>FILE_MAP\<close>, returning at the
  first subcategory that lists the extension.\<close>

fun find_subcategory :: "(string \<times> string list) list \<Rightarrow> string \<Rightarrow> string option" where
  "find_subcategory [] ext = None"
| "find_subcategory ((subcategory, extensions) # rest) ext =
     (if ext \<in> set extensions then Some subcategory else find_subcategory rest ext)"

fun find_category ::
  "(string \<times> (string \<times> string list) list) list \<Rightarrow> string \<Rightarrow> (string \<times> string) option" where
  "find_category [] ext = None"
| "find_category ((category, subcategories) # rest) ext =
     (case find_subcategory subcategories ext of
        Some subcategory \<Rightarrow> Some (category, subcategory)
      | None \<Rightarrow> find_category rest ext)"

definition get_file_category :: "'w os_iface \<Rightarrow> config \<Rightarrow> string \<Rightarrow> string \<times> string" where
  "get_file_category os cfg file_path =
     (let ext = str_lower (path_suffix file_path)
      in if ext = [] then detect_mime_type os file_path
         else (case find_category (FILE_MAP cfg) ext of
                 Some found \<Rightarrow> found
               | None \<Rightarrow>
                   (let (mime_category, mime_subcategory) = detect_mime_type os file_path
                    in if mime_category \<noteq> ''Others'' then (mime_category, mime_subcategory)
                       else (''Others'', ''Uncategorized''))))"

definition month_name :: "nat \<Rightarrow> string" where
  "month_name m =
     [''January'', ''February'', ''March'', ''April'', ''May'', ''June'', ''July'', ''August'',
      ''September'', ''October'', ''November'', ''December''] ! (m - 1)"

text \<open>\<^verbatim>\<open>size / (1024 * 1024)\<close> and \<^verbatim>\<open>size / 1024\<close> are true divisions; they are exact here
  (rationals), as they are in floating point for every size below \<open>2\<^sup>5\<^sup>3\<close> bytes.\<close>

definition size_category :: "int \<Rightarrow> string" where
  "size_category size_bytes_of_file =
     (let size_mb = (of_int size_bytes_of_file :: rat) / (1024 * 1024)
      in if size_mb < 1 then ''Small (< 1MB)''
         else if size_mb < 10 then ''Medium (1-10MB)''
         else if size_mb < 100 then ''Large (10-100MB)''
         else ''Very Large (> 100MB)'')"

text \<open>\<^verbatim>\<open>get_organization_path\<close> of \<^verbatim>\<open>enhanced_file_organizer.py\<close>; \<^verbatim>\<open>os.stat\<close> and
  \<^verbatim>\<open>os.path.getsize\<close> may raise.\<close>

definition get_organization_path ::
  "'w os_iface \<Rightarrow> config \<Rightarrow> 'w \<Rightarrow> string \<Rightarrow> string \<Rightarrow> OrganizationMode \<Rightarrow> io_error + string" where
  "get_organization_path os cfg w file_path target mode =
     (case mode of
        BY_TYPE \<Rightarrow>
          (let (category, subcategory) = get_file_category os cfg file_path
           in Inr (os_path_join (os_path_join target category) subcategory))
      | BY_DATE \<Rightarrow>
          (case mtime_year_month os w file_path of
             Inl e \<Rightarrow> Inl e
           | Inr (year, month) \<Rightarrow>
               Inr (os_path_join (os_path_join (os_path_join target ''By Date'')
                      (string_of_nat year)) (two_digits month @ ''-'' @ month_name month)))
      | BY_SIZE \<Rightarrow>
          (case getsize os w file_path of
             Inl e \<Rightarrow> Inl e
           | Inr sz \<Rightarrow> Inr (os_path_join (os_path_join target ''By Size'') (size_category sz)))
      | BY_EXTENSION \<Rightarrow>
          (let ext = (if str_lower (path_suffix file_path) = [] then ''no_extension''
                      else str_lower (path_suffix file_path))
           in Inr (os_path_join (os_path_join target ''By Extension'')
                    (if ext \<noteq> ''no_extension'' then str_upper (remove_dots ext)
                     else ''NO_EXTENSION''))))"

text \<open>
  The destination that \<^verbatim>\<open>process_file\<close> computes (lines 907 to 919 of
  \<^verbatim>\<open>enhanced_file_organizer.py\<close>), with the flag that the file was put on \<^verbatim>\<open>junk_files\<close>.
  The junk test comes first; \<^verbatim>\<open>os.path.getsize\<close> may raise.
\<close>

definition process_file_destination ::
  "'w os_iface \<Rightarrow> config \<Rightarrow> 'w \<Rightarrow> string \<Rightarrow> int \<Rightarrow> OrganizationMode \<Rightarrow> string
     \<Rightarrow> io_error + string \<times> bool" where
  "process_file_destination os cfg w target junk_threshold mode file_path =
     (case getsize os w file_path of
        Inl e \<Rightarrow> Inl e
      | Inr file_size_bytes \<Rightarrow>
          (let file_size_kb = (of_int file_size_bytes :: rat) / 1024
           in if file_size_kb < of_int junk_threshold
              then (let junk_folder = os_path_join target (JUNK_FOLDER cfg)
                    in Inr (os_path_join junk_folder (os_path_basename file_path), True))
              else (case get_organization_path os cfg w file_path target mode of
                      Inl e \<Rightarrow> Inl e
                    | Inr category_path \<Rightarrow>
                        Inr (os_path_join category_path (os_path_basename file_path), False))))"

text \<open>
  \<^verbatim>\<open>get_destination_path\<close> of \<^verbatim>\<open>enhanced_file_organizer_improved.py\<close>.  The bare
  \<^verbatim>\<open>except\<close> clauses turn a failing \<^verbatim>\<open>getctime\<close> or \<^verbatim>\<open>getsize\<close> into the
  \<^verbatim>\<open>Unknown_Date\<close> and \<^verbatim>\<open>Unknown_Size\<close> folders.
\<close>

definition get_destination_path ::
  "'w os_iface \<Rightarrow> config \<Rightarrow> 'w \<Rightarrow> string \<Rightarrow> string \<Rightarrow> OrganizationMode \<Rightarrow> string" where
  "get_destination_path os cfg w file_path target mode =
     (let (category, subcategory) = get_file_category os cfg file_path
      in case mode of
           BY_TYPE \<Rightarrow>
             os_path_join (os_path_join (os_path_join target category) subcategory)
               (os_path_basename file_path)
         | BY_DATE \<Rightarrow>
             (case ctime_year_month os w file_path of
                Inr (year, month) \<Rightarrow>
                  os_path_join
                    (os_path_join target
                       (string_of_nat year @ ''/'' @ two_digits month @ ''-'' @ month_name month))
                    (os_path_basename file_path)
              | Inl e \<Rightarrow> os_path_join (os_path_join target ''Unknown_Date'')
                          (os_path_basename file_path))
         | BY_SIZE \<Rightarrow>
             (case getsize os w file_path of
                Inr sz \<Rightarrow>
                  os_path_join
                    (os_path_join target
                       (if sz < 1024 * 1024 then ''Small''
                        else if sz < 100 * 1024 * 1024 then ''Medium''
                        else if sz < 1024 * 1024 * 1024 then ''Large''
                        else ''Very_Large''))
                    (os_path_basename file_path)
              | Inl e \<Rightarrow> os_path_join (os_path_join target ''Unknown_Size'')
                          (os_path_basename file_path))
         | BY_EXTENSION \<Rightarrow>
             (let ext = (if str_lower (path_suffix file_path) = [] then ''no_extension''
                         else str_lower (path_suffix file_path))
              in os_path_join
                   (os_path_join target (if startswith ext ''.'' then drop 1 ext else ext))
                   (os_path_basename file_path)))"

text \<open>
  The destination that \<^verbatim>\<open>process_files_batch\<close> of the improved engine computes for a file
  (lines 473 to 478): a protected file is counted and left alone, every other file goes where
  \<^verbatim>\<open>get_destination_path\<close> says.  \<^verbatim>\<open>organize_files\<close> receives \<^verbatim>\<open>junk_threshold\<close> but does not
  hand it to \<^verbatim>\<open>process_files_batch\<close>.
\<close>

definition process_files_batch_destination ::
  "'w os_iface \<Rightarrow> config \<Rightarrow> 'w \<Rightarrow> string \<Rightarrow> OrganizationMode \<Rightarrow> string \<Rightarrow> string option" where
  "process_files_batch_destination os cfg w target mode file_path =
     (if is_protected_path cfg file_path then None
      else Some (get_destination_path os cfg w file_path target mode))"

section \<open>Destination Resolver\<close>

text \<open>
  The \<^verbatim>\<open>while True\<close> loop of \<^verbatim>\<open>generate_unique_filename\<close>: the probe with number
  \<open>counter\<close> is returned when nothing exists there; otherwise the counter goes up, and once
  it exceeds 1000 the time-stamped name is returned without a probe.
\<close>

definition rename_candidate :: "string \<Rightarrow> string \<Rightarrow> string \<Rightarrow> nat \<Rightarrow> string" where
  "rename_candidate parent stem sfx counter =
     path_div parent (stem @ '' ('' @ string_of_nat counter @ '')'' @ sfx)"

definition timestamp_candidate :: "'w os_iface \<Rightarrow> 'w \<Rightarrow> string \<Rightarrow> string \<Rightarrow> string \<Rightarrow> string" where
  "timestamp_candidate os w parent stem sfx =
     path_div parent (stem @ ''_'' @ now_stamp os w @ sfx)"

function rename_loop ::
  "'w os_iface \<Rightarrow> 'w \<Rightarrow> string \<Rightarrow> string \<Rightarrow> string \<Rightarrow> nat \<Rightarrow> string" where
  "rename_loop os w parent stem sfx counter =
     (if \<not> path_exists os w (rename_candidate parent stem sfx counter)
      then rename_candidate parent stem sfx counter
      else if counter + 1 > 1000 then timestamp_candidate os w parent stem sfx
      else rename_loop os w parent stem sfx (counter + 1))"
  by pat_completeness auto
termination
  by (relation "measure (\<lambda>(os, w, parent, stem, sfx, counter). 1001 - counter)") auto

declare rename_loop.simps [simp del]

text \<open>\<^verbatim>\<open>generate_unique_filename\<close>: \<^verbatim>\<open>None\<close> tells the caller to skip the file; creating
  the \<^verbatim>\<open>Duplicates\<close> folder may raise.\<close>

definition generate_unique_filename ::
  "'w os_iface \<Rightarrow> 'w \<Rightarrow> string \<Rightarrow> DuplicateHandling \<Rightarrow> 'w \<times> (io_error + string option)" where
  "generate_unique_filename os w target_path duplicate_handling =
     (if duplicate_handling = SKIP then (w, Inr None)
      else if duplicate_handling = REPLACE then (w, Inr (Some target_path))
      else if duplicate_handling = MERGE_TO_DUPLICATES then
        (let duplicates_folder = path_div (path_parent target_path) ''Duplicates''
         in case mkdir_exist_ok os w duplicates_folder of
              (w1, Some e) \<Rightarrow> (w1, Inl e)
            | (w1, None) \<Rightarrow> (w1, Inr (Some (path_div duplicates_folder (path_name target_path)))))
      else (w, Inr (Some (rename_loop os w (path_parent target_path) (path_stem target_path)
                            (path_suffix target_path) 1))))"

text \<open>
  \<^verbatim>\<open>resolve_file_conflict\<close> of the improved engine: the loop has no bound, so it is a partial
  function (\<^const>\<open>None\<close> when it never leaves the loop).
\<close>

definition conflict_candidate :: "string \<Rightarrow> string \<Rightarrow> nat \<Rightarrow> string" where
  "conflict_candidate base ext counter = base @ ''_('' @ string_of_nat counter @ '')'' @ ext"

partial_function (option) resolve_loop ::
  "'w os_iface \<Rightarrow> 'w \<Rightarrow> string \<Rightarrow> string \<Rightarrow> string \<Rightarrow> nat \<Rightarrow> string option" where
  "resolve_loop os w base ext dest counter =
     (if path_exists os w dest
      then resolve_loop os w base ext (conflict_candidate base ext counter) (counter + 1)
      else Some dest)"

declare resolve_loop.simps [code]

definition resolve_file_conflict :: "'w os_iface \<Rightarrow> 'w \<Rightarrow> string \<Rightarrow> string \<Rightarrow> string option" where
  "resolve_file_conflict os w src dest =
     (let (base, ext) = os_path_splitext dest
      in resolve_loop os w base ext dest 1)"

section \<open>Move Transaction Engine\<close>

text \<open>
  \<^verbatim>\<open>move_file_safe\<close> of \<^verbatim>\<open>enhanced_file_organizer.py\<close>.  The body of its \<^verbatim>\<open>try\<close> is
  \<open>move_file_safe_try\<close>; it returns the organizer and the world as they are when the body
  returns or raises, so that whatever the body changed before an exception stays changed, as
  in Python.  Lines 824 to 835 (parent directories, conflict resolution) are
  \<open>resolve_destination\<close>, lines 837 to 866 (hash, size, move, journal, statistics) are
  \<open>transfer_and_log\<close>.
\<close>

definition bump_skipped :: "organizer \<Rightarrow> organizer" where
  "bump_skipped org = org\<lparr>stats := (stats org)\<lparr>skipped := skipped (stats org) + 1\<rparr>\<rparr>"

definition bump_errors :: "organizer \<Rightarrow> organizer" where
  "bump_errors org = org\<lparr>stats := (stats org)\<lparr>errors := errors (stats org) + 1\<rparr>\<rparr>"

definition resolve_destination ::
  "'w os_iface \<Rightarrow> 'w \<Rightarrow> string \<Rightarrow> DuplicateHandling \<Rightarrow> 'w \<times> (io_error + string option)" where
  "resolve_destination os w dest duplicate_handling =
     (case mkdir_parents os w (path_parent dest) of
        (w1, Some e) \<Rightarrow> (w1, Inl e)
      | (w1, None) \<Rightarrow>
          if path_exists os w1 (pure_path dest)
          then generate_unique_filename os w1 dest duplicate_handling
          else (w1, Inr (Some dest)))"

text \<open>Lines 858 to 864: a hash that is not \<^verbatim>\<open>None\<close> (and not the empty string) is entered
  into the duplicate map.\<close>

definition track_duplicates :: "organizer \<Rightarrow> string option \<Rightarrow> string \<Rightarrow> organizer" where
  "track_duplicates org fhash dest =
     (case fhash of
        None \<Rightarrow> org
      | Some h \<Rightarrow>
          if h = [] then org
          else (let paths = (case duplicate_map org h of None \<Rightarrow> [] | Some ps \<Rightarrow> ps) @ [dest];
                    org1 = org\<lparr>duplicate_map := (duplicate_map org)(h \<mapsto> paths)\<rparr>
                in if length paths > 1
                   then org1\<lparr>stats := (stats org1)\<lparr>duplicates := duplicates (stats org1) + 1\<rparr>\<rparr>
                   else org1))"

definition transfer_and_log ::
  "'w os_iface \<Rightarrow> organizer \<Rightarrow> 'w \<Rightarrow> string \<Rightarrow> string \<Rightarrow> DuplicateHandling
     \<Rightarrow> organizer \<times> 'w \<times> (io_error + bool)" where
  "transfer_and_log os org w src dest duplicate_handling =
     (let fhash = (if duplicate_handling \<noteq> SKIP then calculate_file_hash os w src else None)
      in case getsize os w src of
           Inl e \<Rightarrow> (org, w, Inl e)
         | Inr file_size \<Rightarrow>
             (case shutil_move os w src dest of
                (w1, Some e) \<Rightarrow> (org, w1, Inl e)
              | (w1, None) \<Rightarrow>
                  (let op = \<lparr>source = src, destination = dest, operation = ''move'',
                             timestamp = now_iso os w1, size_bytes = file_size,
                             file_hash = fhash\<rparr>;
                       org1 = org\<lparr>operations_log := operations_log org @ [op]\<rparr>;
                       org2 = org1\<lparr>stats := (stats org1)\<lparr>moved := moved (stats org1) + 1\<rparr>\<rparr>;
                       org3 = org2\<lparr>stats := (stats org2)
                                \<lparr>total_size := total_size (stats org2) + file_size\<rparr>\<rparr>
                   in (track_duplicates org3 fhash dest, w1, Inr True))))"

definition move_file_safe_try ::
  "'w os_iface \<Rightarrow> organizer \<Rightarrow> 'w \<Rightarrow> string \<Rightarrow> string \<Rightarrow> DuplicateHandling
     \<Rightarrow> organizer \<times> 'w \<times> (io_error + bool)" where
  "move_file_safe_try os org w src dest duplicate_handling =
     (case resolve_destination os w dest duplicate_handling of
        (w1, Inl e) \<Rightarrow> (org, w1, Inl e)
      | (w1, Inr None) \<Rightarrow> (bump_skipped org, w1, Inr False)
      | (w1, Inr (Some final_destination)) \<Rightarrow>
          transfer_and_log os org w1 src final_destination duplicate_handling)"

definition move_file_safe ::
  "'w os_iface \<Rightarrow> organizer \<Rightarrow> 'w \<Rightarrow> string \<Rightarrow> string \<Rightarrow> DuplicateHandling
     \<Rightarrow> organizer \<times> 'w \<times> bool" where
  "move_file_safe os org w src dest duplicate_handling =
     (case move_file_safe_try os org w src dest duplicate_handling of
        (org1, w1, Inl e) \<Rightarrow> (bump_errors org1, w1, False)
      | (org1, w1, Inr success) \<Rightarrow> (org1, w1, success))"

text \<open>
  One call of \<^verbatim>\<open>process_file\<close>, the closure inside \<^verbatim>\<open>organize_files\<close>, on the state made
  of the organizer, the world, \<^verbatim>\<open>junk_files\<close> and \<^verbatim>\<open>processed\<close>.
\<close>

definition process_file ::
  "'w os_iface \<Rightarrow> config \<Rightarrow> string \<Rightarrow> int \<Rightarrow> OrganizationMode \<Rightarrow> DuplicateHandling \<Rightarrow> bool
     \<Rightarrow> organizer \<times> 'w \<times> string list \<times> nat \<Rightarrow> string \<Rightarrow> organizer \<times> 'w \<times> string list \<times> nat" where
  "process_file os cfg target junk_threshold mode duplicate_handling dry_run st file_path =
     (case st of (org, w, junk_files, processed) \<Rightarrow>
        (case process_file_destination os cfg w target junk_threshold mode file_path of
           Inl e \<Rightarrow> (bump_errors org, w, junk_files, processed)
         | Inr (dest_path, is_junk) \<Rightarrow>
             (let junk_files1 = (if is_junk then junk_files @ [file_path] else junk_files)
              in if \<not> dry_run
                 then (case move_file_safe os org w file_path dest_path duplicate_handling of
                         (org1, w1, success) \<Rightarrow>
                           (org1, w1, junk_files1, if success then processed + 1 else processed))
                 else (org, w, junk_files1, processed + 1))))"

text \<open>
  A sequence of move attempts: calls of \<^verbatim>\<open>move_file_safe\<close>, each with its own source,
  destination and policy.  \<^verbatim>\<open>organize_files\<close> hands \<^verbatim>\<open>process_file\<close> to a pool of worker
  threads, so a run does not fix the order of its calls: the list stands for any order, and
  each call is taken whole, running to its end before the next one begins.
\<close>

fun move_attempts ::
  "'w os_iface \<Rightarrow> organizer \<times> 'w \<Rightarrow> (string \<times> string \<times> DuplicateHandling) list
     \<Rightarrow> organizer \<times> 'w" where
  "move_attempts os st [] = st"
| "move_attempts os st ((src, dest, duplicate_handling) # rest) =
     (case move_file_safe os (fst st) (snd st) src dest duplicate_handling of
        (org1, w1, success) \<Rightarrow> move_attempts os (org1, w1) rest)"

section \<open>Duplicate map file\<close>

text \<open>\<^verbatim>\<open>save_duplicate_map\<close>: the dictionary \<^verbatim>\<open>duplicates_only\<close> that is handed to
  \<^verbatim>\<open>json.dump\<close>.  A failure to open or write the file is logged and changes nothing else.\<close>

definition save_duplicate_map :: "organizer \<Rightarrow> (string \<rightharpoonup> string list)" where
  "save_duplicate_map org =
     (\<lambda>k. case duplicate_map org k of
             None \<Rightarrow> None
           | Some v \<Rightarrow> if length v > 1 then Some v else None)"

section \<open>Undo Engine\<close>

text \<open>
  The replay of \<^verbatim>\<open>undo_last_organization\<close> (lines 1226 to 1258), on the journal loaded
  from the undo file: the counters \<^verbatim>\<open>undone\<close>, \<^verbatim>\<open>skipped\<close>, \<^verbatim>\<open>errors\<close>, and one step per
  journal entry.  An exception of \<^verbatim>\<open>os.makedirs\<close> or \<^verbatim>\<open>shutil.move\<close> is caught inside the
  loop.
\<close>

record undo_tally =
  undone :: nat
  undo_skipped :: nat
  undo_errors :: nat

definition undo_entry :: "'w os_iface \<Rightarrow> 'w \<times> undo_tally \<Rightarrow> FileOperation \<Rightarrow> 'w \<times> undo_tally" where
  "undo_entry os st op_data =
     (case st of (w, t) \<Rightarrow>
        (let current = destination op_data;
             original = source op_data
         in if path_exists os w current then
              (if path_exists os w original then (w, t\<lparr>undo_skipped := undo_skipped t + 1\<rparr>)
               else (case mkdir_parents os w (os_path_dirname original) of
                       (w1, Some e) \<Rightarrow> (w1, t\<lparr>undo_errors := undo_errors t + 1\<rparr>)
                     | (w1, None) \<Rightarrow>
                         (case shutil_move os w1 current original of
                            (w2, Some e) \<Rightarrow> (w2, t\<lparr>undo_errors := undo_errors t + 1\<rparr>)
                          | (w2, None) \<Rightarrow> (w2, t\<lparr>undone := undone t + 1\<rparr>))))
            else (w, t\<lparr>undo_skipped := undo_skipped t + 1\<rparr>)))"

fun undo_loop :: "'w os_iface \<Rightarrow> 'w \<times> undo_tally \<Rightarrow> FileOperation list \<Rightarrow> 'w \<times> undo_tally" where
  "undo_loop os st [] = st"
| "undo_loop os st (op_data # rest) = undo_loop os (undo_entry os st op_data) rest"

definition undo_last_organization ::
  "'w os_iface \<Rightarrow> 'w \<Rightarrow> FileOperation list \<Rightarrow> 'w \<times> undo_tally" where
  "undo_last_organization os w operations_data =
     undo_loop os (w, \<lparr>undone = 0, undo_skipped = 0, undo_errors = 0\<rparr>) (rev operations_data)"

section \<open>Empty-Directory Reaper\<close>

text \<open>
  The Python set \<^verbatim>\<open>empty_dirs\<close> is a list without repetitions; its iteration order, which
  Python leaves open, is the order of insertion.
\<close>

definition set_add :: "string \<Rightarrow> string list \<Rightarrow> string list" where
  "set_add x xs = (if x \<in> set xs then xs else xs @ [x])"

text \<open>The loop over \<^verbatim>\<open>dir_contents\<close> that computes \<^verbatim>\<open>has_real_content\<close>.\<close>

fun has_real_content :: "string list \<Rightarrow> dir_entry list \<Rightarrow> bool" where
  "has_real_content empty_dirs [] = False"
| "has_real_content empty_dirs (entry # rest) =
     (if entry_is_file entry then
        (if \<not> startswith (entry_name entry) ''.'' \<and> \<not> startswith (entry_name entry) ''~''
         then True else has_real_content empty_dirs rest)
      else if entry_is_dir entry then
        (if entry_path entry \<notin> set empty_dirs then True else has_real_content empty_dirs rest)
      else has_real_content empty_dirs rest)"

text \<open>One round of the inner loop of \<^verbatim>\<open>scan_for_empty_directories\<close>
  (\<^verbatim>\<open>enhanced_file_organizer.py\<close>), for the directory \<^verbatim>\<open>current_dir\<close> that \<^verbatim>\<open>os.walk\<close> yields.\<close>

definition scan_directory ::
  "'w os_iface \<Rightarrow> config \<Rightarrow> 'w \<Rightarrow> string list \<Rightarrow> string \<Rightarrow> string list" where
  "scan_directory os cfg w empty_dirs current_dir =
     (if is_protected_path cfg current_dir then empty_dirs
      else (case scandir os w current_dir of
              Inl e \<Rightarrow> empty_dirs
            | Inr dir_contents \<Rightarrow>
                if \<not> has_real_content empty_dirs dir_contents
                then set_add current_dir empty_dirs else empty_dirs))"

text \<open>The inner loop over \<^verbatim>\<open>os.walk(root_path, topdown=False)\<close> and the outer loop over
  \<^verbatim>\<open>root_paths\<close>.\<close>

definition scan_root ::
  "'w os_iface \<Rightarrow> config \<Rightarrow> 'w \<Rightarrow> string list \<Rightarrow> string \<Rightarrow> string list" where
  "scan_root os cfg w empty_dirs root_path =
     foldl (\<lambda>acc triple. scan_directory os cfg w acc (fst triple))
       empty_dirs (walk_bottom_up os w root_path)"

definition scan_for_empty_directories ::
  "'w os_iface \<Rightarrow> config \<Rightarrow> 'w \<Rightarrow> string list \<Rightarrow> string list" where
  "scan_for_empty_directories os cfg w root_paths = foldl (scan_root os cfg w) [] root_paths"

text \<open>The same for \<^verbatim>\<open>scan_for_empty_directories\<close> of
  \<^verbatim>\<open>enhanced_file_organizer_improved.py\<close>, which does not mark the root it is walking.\<close>

definition scan_directory_improved ::
  "'w os_iface \<Rightarrow> config \<Rightarrow> 'w \<Rightarrow> string \<Rightarrow> string list \<Rightarrow> string \<Rightarrow> string list" where
  "scan_directory_improved os cfg w root_path empty_dirs current_dir =
     (if is_protected_path cfg current_dir then empty_dirs
      else (case scandir os w current_dir of
              Inl e \<Rightarrow> empty_dirs
            | Inr dir_contents \<Rightarrow>
                if \<not> has_real_content empty_dirs dir_contents \<and> current_dir \<noteq> root_path
                then set_add current_dir empty_dirs else empty_dirs))"

definition scan_root_improved ::
  "'w os_iface \<Rightarrow> config \<Rightarrow> 'w \<Rightarrow> string list \<Rightarrow> string \<Rightarrow> string list" where
  "scan_root_improved os cfg w empty_dirs root_path =
     foldl (\<lambda>acc triple. scan_directory_improved os cfg w root_path acc (fst triple))
       empty_dirs (walk_bottom_up os w root_path)"

definition scan_for_empty_directories_improved ::
  "'w os_iface \<Rightarrow> config \<Rightarrow> 'w \<Rightarrow> string list \<Rightarrow> string list" where
  "scan_for_empty_directories_improved os cfg w root_paths =
     foldl (scan_root_improved os cfg w) [] root_paths"

text \<open>
  The removal pass of \<^verbatim>\<open>remove_empty_directories_recursive\<close>
  (\<^verbatim>\<open>enhanced_file_organizer.py\<close>): one step per candidate, on the world and the counters
  \<^verbatim>\<open>removed_this_pass\<close> and \<^verbatim>\<open>failed_this_pass\<close>.
\<close>

definition remove_candidate :: "'w os_iface \<Rightarrow> 'w \<times> nat \<times> nat \<Rightarrow> string \<Rightarrow> 'w \<times> nat \<times> nat" where
  "remove_candidate os st empty_dir =
     (case st of (w, removed_this_pass, failed_this_pass) \<Rightarrow>
        if path_exists os w empty_dir then
          (case scandir os w empty_dir of
             Inl e \<Rightarrow> (w, removed_this_pass, failed_this_pass + 1)
           | Inr dir_contents \<Rightarrow>
               if dir_contents = [] then
                 (case rmdir os w empty_dir of
                    (w1, Some e) \<Rightarrow> (w1, removed_this_pass, failed_this_pass + 1)
                  | (w1, None) \<Rightarrow> (w1, removed_this_pass + 1, failed_this_pass))
               else (w, removed_this_pass, failed_this_pass))
        else (w, removed_this_pass, failed_this_pass))"

text \<open>\<^verbatim>\<open>sorted(empty_dirs, key=lambda x: x.count(os.sep), reverse=True)\<close>: a stable sort,
  deepest first.\<close>

definition sort_deepest_first :: "string list \<Rightarrow> string list" where
  "sort_deepest_first empty_dirs = rev (sort_key count_sep (rev empty_dirs))"

definition removal_pass :: "'w os_iface \<Rightarrow> 'w \<Rightarrow> string list \<Rightarrow> 'w \<times> nat \<times> nat" where
  "removal_pass os w empty_dirs =
     foldl (remove_candidate os) (w, 0, 0) (sort_deepest_first empty_dirs)"

text \<open>The \<^verbatim>\<open>while iteration < max_iterations\<close> loop, by the number of iterations that
  are left; it returns the world and \<^verbatim>\<open>total_removed\<close>.\<close>

fun reap_passes ::
  "'w os_iface \<Rightarrow> config \<Rightarrow> string list \<Rightarrow> nat \<Rightarrow> 'w \<times> nat \<Rightarrow> 'w \<times> nat" where
  "reap_passes os cfg sources 0 (w, total_removed) = (w, total_removed)"
| "reap_passes os cfg sources (Suc remaining) (w, total_removed) =
     (let empty_dirs = scan_for_empty_directories os cfg w sources
      in if empty_dirs = [] then (w, total_removed)
         else (case removal_pass os w empty_dirs of
                 (w1, removed_this_pass, failed_this_pass) \<Rightarrow>
                   if removed_this_pass = 0 then (w1, total_removed + removed_this_pass)
                   else reap_passes os cfg sources remaining
                          (w1, total_removed + removed_this_pass)))"

definition remove_empty_directories_recursive ::
  "'w os_iface \<Rightarrow> config \<Rightarrow> organizer \<Rightarrow> 'w \<Rightarrow> string list \<Rightarrow> nat \<Rightarrow> organizer \<times> 'w \<times> nat" where
  "remove_empty_directories_recursive os cfg org w sources max_iterations =
     (case reap_passes os cfg sources max_iterations (w, 0) of
        (w1, total_removed) \<Rightarrow>
          (org\<lparr>stats := (stats org)\<lparr>empty_folders_removed := total_removed\<rparr>\<rparr>, w1, total_removed))"

section \<open>A small file system\<close>

text \<open>
  A file system that implements the interface above, for running the engine on concrete
  inputs: a table from normalised absolute paths to nodes.  A regular file has a size and,
  when it is readable, the MD5 digest of its content; every file carries the same date.
\<close>

datatype node = RegularFile int "string option" | Directory

record sim_world =
  nodes :: "(string \<times> node) list"
  file_date :: "nat \<times> nat"
  clock_stamp :: string
  clock_iso :: string

definition sim_lookup :: "sim_world \<Rightarrow> string \<Rightarrow> node option" where
  "sim_lookup w p = map_of (nodes w) p"

definition sim_exists :: "sim_world \<Rightarrow> string \<Rightarrow> bool" where
  "sim_exists w p = (sim_lookup w p \<noteq> None)"

definition sim_isdir :: "sim_world \<Rightarrow> string \<Rightarrow> bool" where
  "sim_isdir w p = (sim_lookup w p = Some Directory)"

definition sim_children :: "sim_world \<Rightarrow> string \<Rightarrow> (string \<times> node) list" where
  "sim_children w d = filter (\<lambda>(p, n). p \<noteq> d \<and> path_parent p = d) (nodes w)"

text \<open>The path itself and the directories above it, outermost first.\<close>

definition ancestors :: "string \<Rightarrow> string list" where
  "ancestors p =
     map (\<lambda>k. path_str (posix_root p) (take k (path_components p)))
       [0 ..< Suc (length (path_components p))]"

definition sim_mkdir_parents :: "sim_world \<Rightarrow> string \<Rightarrow> sim_world \<times> io_error option" where
  "sim_mkdir_parents w p =
     (if p = [] then (w, Some FileNotFoundError)
      else if list_ex (\<lambda>d. case sim_lookup w d of Some (RegularFile sz dg) \<Rightarrow> True | _ \<Rightarrow> False)
                (ancestors p)
      then (w, Some FileExistsError)
      else (w\<lparr>nodes := nodes w
                 @ map (\<lambda>d. (d, Directory)) (filter (\<lambda>d. \<not> sim_exists w d) (ancestors p))\<rparr>,
            None))"

definition sim_mkdir_exist_ok :: "sim_world \<Rightarrow> string \<Rightarrow> sim_world \<times> io_error option" where
  "sim_mkdir_exist_ok w p =
     (case sim_lookup w p of
        Some Directory \<Rightarrow> (w, None)
      | Some (RegularFile sz dg) \<Rightarrow> (w, Some FileExistsError)
      | None \<Rightarrow>
          if sim_isdir w (path_parent p) then (w\<lparr>nodes := nodes w @ [(p, Directory)]\<rparr>, None)
          else (w, Some FileNotFoundError))"

definition sim_read_md5 :: "sim_world \<Rightarrow> string \<Rightarrow> io_error + string" where
  "sim_read_md5 w p =
     (case sim_lookup w p of
        None \<Rightarrow> Inl FileNotFoundError
      | Some Directory \<Rightarrow> Inl OSError
      | Some (RegularFile sz None) \<Rightarrow> Inl PermissionError
      | Some (RegularFile sz (Some dg)) \<Rightarrow> Inr dg)"

definition sim_getsize :: "sim_world \<Rightarrow> string \<Rightarrow> io_error + int" where
  "sim_getsize w p =
     (case sim_lookup w p of
        None \<Rightarrow> Inl FileNotFoundError
      | Some Directory \<Rightarrow> Inr 4096
      | Some (RegularFile sz dg) \<Rightarrow> Inr sz)"

definition sim_year_month :: "sim_world \<Rightarrow> string \<Rightarrow> io_error + nat \<times> nat" where
  "sim_year_month w p = (if sim_exists w p then Inr (file_date w) else Inl FileNotFoundError)"

definition sim_rename :: "sim_world \<Rightarrow> string \<Rightarrow> string \<Rightarrow> node \<Rightarrow> sim_world" where
  "sim_rename w src dst n =
     w\<lparr>nodes := filter (\<lambda>(p, m). p \<noteq> src \<and> p \<noteq> dst) (nodes w) @ [(dst, n)]\<rparr>"

text \<open>\<^verbatim>\<open>shutil.move\<close> of a regular file: into the directory \<open>dst\<close> when \<open>dst\<close> is one, onto
  the path \<open>dst\<close> otherwise.  This file system refuses to move a directory.\<close>

definition sim_move :: "sim_world \<Rightarrow> string \<Rightarrow> string \<Rightarrow> sim_world \<times> io_error option" where
  "sim_move w src dst =
     (case sim_lookup w src of
        None \<Rightarrow> (w, Some FileNotFoundError)
      | Some Directory \<Rightarrow> (w, Some OSError)
      | Some (RegularFile sz dg) \<Rightarrow>
          if sim_isdir w dst then
            (let real_dst = os_path_join dst (os_path_basename src)
             in if sim_exists w real_dst then (w, Some ShutilError)
                else (sim_rename w src real_dst (RegularFile sz dg), None))
          else if sim_isdir w (path_parent dst)
               then (sim_rename w src dst (RegularFile sz dg), None)
               else (w, Some FileNotFoundError))"

definition sim_entry :: "string \<Rightarrow> string \<times> node \<Rightarrow> dir_entry" where
  "sim_entry d pn =
     \<lparr>entry_name = path_name (fst pn), entry_path = os_path_join d (path_name (fst pn)),
      entry_is_file = (snd pn \<noteq> Directory), entry_is_dir = (snd pn = Directory)\<rparr>"

definition sim_scandir :: "sim_world \<Rightarrow> string \<Rightarrow> io_error + dir_entry list" where
  "sim_scandir w d =
     (case sim_lookup w d of
        None \<Rightarrow> Inl FileNotFoundError
      | Some (RegularFile sz dg) \<Rightarrow> Inl NotADirectoryError
      | Some Directory \<Rightarrow> Inr (map (sim_entry d) (sim_children w d)))"

definition sim_rmdir :: "sim_world \<Rightarrow> string \<Rightarrow> sim_world \<times> io_error option" where
  "sim_rmdir w d =
     (case sim_lookup w d of
        None \<Rightarrow> (w, Some FileNotFoundError)
      | Some (RegularFile sz dg) \<Rightarrow> (w, Some NotADirectoryError)
      | Some Directory \<Rightarrow>
          if sim_children w d = [] then (w\<lparr>nodes := filter (\<lambda>(p, n). p \<noteq> d) (nodes w)\<rparr>, None)
          else (w, Some OSError))"

text \<open>\<^verbatim>\<open>os.walk(top, topdown=False)\<close>: the subdirectories first, then the directory
  itself; a directory that cannot be listed yields nothing.  The recursion is bounded by the
  number of nodes, which no directory depth exceeds.\<close>

fun sim_walk_from ::
  "nat \<Rightarrow> sim_world \<Rightarrow> string \<Rightarrow> (string \<times> string list \<times> string list) list" where
  "sim_walk_from 0 w root_dir = []"
| "sim_walk_from (Suc n) w root_dir =
     (case sim_scandir w root_dir of
        Inl e \<Rightarrow> []
      | Inr entries \<Rightarrow>
          concat (map (\<lambda>e. sim_walk_from n w (os_path_join root_dir (entry_name e)))
                    (filter entry_is_dir entries))
          @ [(root_dir, map entry_name (filter entry_is_dir entries),
              map entry_name (filter (\<lambda>e. \<not> entry_is_dir e) entries))])"

definition sim_walk :: "sim_world \<Rightarrow> string \<Rightarrow> (string \<times> string list \<times> string list) list" where
  "sim_walk w root_dir = sim_walk_from (length (nodes w)) w root_dir"

definition sim_os :: "sim_world os_iface" where
  "sim_os =
     \<lparr>path_exists = sim_exists, path_isdir = sim_isdir, mkdir_parents = sim_mkdir_parents,
      mkdir_exist_ok = sim_mkdir_exist_ok, read_md5 = sim_read_md5, getsize = sim_getsize,
      mtime_year_month = sim_year_month, ctime_year_month = sim_year_month,
      shutil_move = sim_move, scandir = sim_scandir, rmdir = sim_rmdir,
      walk_bottom_up = sim_walk, guess_type = (\<lambda>p. None), now_stamp = clock_stamp,
      now_iso = clock_iso\<rparr>"

definition sim_fs :: "(string \<times> node) list \<Rightarrow> sim_world" where
  "sim_fs ns =
     \<lparr>nodes = ns, file_date = (2024, 3), clock_stamp = ''20240301_120000'',
      clock_iso = ''2024-03-01T12:00:00''\<rparr>"

text \<open>The directory \<open>d\<close> exists and holds the regular file \<open>f\<close>.\<close>

definition holds_file :: "sim_world \<Rightarrow> string \<Rightarrow> string \<Rightarrow> bool" where
  "holds_file w d f =
     (sim_lookup w d = Some Directory \<and> f \<noteq> d \<and> path_parent f = d
      \<and> (case sim_lookup w f of Some (RegularFile sz dg) \<Rightarrow> True | _ \<Rightarrow> False))"

section \<open>Example file systems and runs\<close>

text \<open>Two files with the same content and a third one, and the three moves that put them
  into their type folders under the \<^verbatim>\<open>RENAME\<close> policy, the two copies asking for the same
  destination.\<close>

definition two_copies_world :: sim_world where
  "two_copies_world =
     sim_fs [(''/'', Directory), (''/a'', Directory),
             (''/a/x.txt'', RegularFile 20480 (Some ''0cc1'')),
             (''/a/b'', Directory),
             (''/a/b/x.txt'', RegularFile 20480 (Some ''0cc1'')),
             (''/a/z.pdf'', RegularFile 30000 (Some ''77aa''))]"

definition two_copies_run :: organizer where
  "two_copies_run =
     fst (move_attempts sim_os (init_organizer, two_copies_world)
            [(''/a/x.txt'', ''/t/Documents/Text/x.txt'', RENAME),
             (''/a/b/x.txt'', ''/t/Documents/Text/x.txt'', RENAME),
             (''/a/z.pdf'', ''/t/Documents/PDF/z.pdf'', RENAME)])"

text \<open>One readable file of 5 KB.\<close>

definition small_file_world :: sim_world where
  "small_file_world =
     sim_fs [(''/'', Directory), (''/a'', Directory),
             (''/a/x.txt'', RegularFile 5120 (Some ''0cc1''))]"

text \<open>A folder where \<^verbatim>\<open>a.txt\<close> and the thousand names \<^verbatim>\<open>a_(1).txt\<close> to \<^verbatim>\<open>a_(1000).txt\<close>
  are taken.\<close>

definition crowded_world :: sim_world where
  "crowded_world =
     sim_fs ([(''/'', Directory), (''/t'', Directory), (''/t/a.txt'', RegularFile 1 None)]
             @ map (\<lambda>k. (conflict_candidate ''/t/a'' ''.txt'' k, RegularFile 1 None))
                 [1 ..< 1001])"

text \<open>The 5 KB file again, with its destination \<^verbatim>\<open>/t/Documents/Text/x.txt\<close> taken by
  another file.\<close>

definition conflict_world :: sim_world where
  "conflict_world =
     sim_fs [(''/'', Directory), (''/a'', Directory),
             (''/a/x.txt'', RegularFile 5120 (Some ''0cc1'')),
             (''/t'', Directory), (''/t/Documents'', Directory),
             (''/t/Documents/Text'', Directory),
             (''/t/Documents/Text/x.txt'', RegularFile 9 (Some ''ffff''))]"

text \<open>Moving the 5 KB file to a free destination under \<^verbatim>\<open>SKIP\<close>, and to the taken
  destination under \<^verbatim>\<open>RENAME\<close>.\<close>

definition skip_policy_run :: "organizer \<times> sim_world \<times> bool" where
  "skip_policy_run =
     move_file_safe sim_os init_organizer small_file_world ''/a/x.txt''
       ''/t/Documents/Text/x.txt'' SKIP"

definition rename_policy_run :: "organizer \<times> sim_world \<times> bool" where
  "rename_policy_run =
     move_file_safe sim_os init_organizer conflict_world ''/a/x.txt''
       ''/t/Documents/Text/x.txt'' RENAME"

text \<open>A journal of four moves and the world in which it is undone: the first original
  location is occupied again, the second moved file is gone, the third original location lies
  under a path that is now a regular file, the fourth can be moved back.\<close>

definition undo_journal :: "FileOperation list" where
  "undo_journal =
     map (\<lambda>(s, d). \<lparr>source = s, destination = d, operation = ''move'',
                      timestamp = ''2024-03-01T12:00:00'', size_bytes = 7, file_hash = None\<rparr>)
       [(''/a/back.txt'', ''/t/back.txt''), (''/f/z.txt'', ''/t/z.txt''),
        (''/a/y.txt'', ''/t/y.txt''), (''/a/x.txt'', ''/t/x.txt'')]"

definition undo_world :: sim_world where
  "undo_world =
     sim_fs [(''/'', Directory), (''/a'', Directory), (''/t'', Directory),
             (''/a/x.txt'', RegularFile 99 (Some ''beef'')),
             (''/t/x.txt'', RegularFile 7 (Some ''0cc1'')),
             (''/f'', RegularFile 1 None),
             (''/t/z.txt'', RegularFile 7 (Some ''0cc2'')),
             (''/t/back.txt'', RegularFile 7 (Some ''0cc3''))]"

text \<open>A source root with a folder that holds only a hidden file and a folder that holds
  nothing; the same with a second such folder whose name contains \<^verbatim>\<open>boot\<close>; a source root
  that is empty itself; and a root nested in another root.\<close>

definition hidden_world :: sim_world where
  "hidden_world =
     sim_fs [(''/'', Directory), (''/a'', Directory), (''/a/keep'', Directory),
             (''/a/keep/.gitkeep'', RegularFile 0 (Some ''d41d'')),
             (''/a/empty'', Directory)]"

definition guarded_world :: sim_world where
  "guarded_world =
     sim_fs [(''/'', Directory), (''/a'', Directory), (''/a/bootcamp'', Directory),
             (''/a/bootcamp/.gitkeep'', RegularFile 0 (Some ''d41d'')),
             (''/a/keep'', Directory),
             (''/a/keep/.gitkeep'', RegularFile 0 (Some ''d41d''))]"

definition empty_root_world :: sim_world where
  "empty_root_world = sim_fs [(''/'', Directory), (''/a'', Directory)]"

definition nested_root_world :: sim_world where
  "nested_root_world =
     sim_fs [(''/'', Directory), (''/a'', Directory), (''/a/b'', Directory),
             (''/a/n.txt'', RegularFile 20480 (Some ''0cc1''))]"

section \<open>Properties of the Path Guard\<close>

lemma lower_char_slash [simp]: "lower_char c = CHR ''/'' \<longleftrightarrow> c = CHR ''/''"
  by (simp add: lower_char_def upper_letters_def lower_letters_def)

lemma lower_char_dot [simp]: "lower_char c = CHR ''.'' \<longleftrightarrow> c = CHR ''.''"
  by (simp add: lower_char_def upper_letters_def lower_letters_def)

lemma split_on_nonempty: "split_on sep s \<noteq> []"
  by (induction s) (auto split: list.splits)

lemma split_on_hd_prefix: "prefix (hd (split_on sep s)) s"
  by (induction s) (auto split: list.splits)

lemma split_on_sublist: "w \<in> set (split_on sep s) \<Longrightarrow> sublist w s"
proof (induction s arbitrary: w)
  case Nil
  then show ?case by simp
next
  case (Cons c cs)
  show ?case
  proof (cases "c = sep")
    case True
    with Cons show ?thesis by (auto simp: sublist_Cons_right)
  next
    case False
    obtain v vs where vs: "split_on sep cs = v # vs"
      using split_on_nonempty by (cases "split_on sep cs") auto
    have pv: "prefix v cs"
      using split_on_hd_prefix [of sep cs] vs by simp
    from Cons.prems False vs have "w = c # v \<or> w \<in> set vs" by simp
    then show ?thesis
    proof
      assume "w = c # v"
      with pv show ?thesis by (simp add: sublist_Cons_right)
    next
      assume "w \<in> set vs"
      then have "sublist w cs" using Cons.IH vs by simp
      then show ?thesis by (simp add: sublist_Cons_right)
    qed
  qed
qed

lemma posix_root_prefix: "prefix (posix_root p) p"
  by (cases p rule: list.exhaust; cases "tl p") (auto simp: posix_root_def)

lemma path_parts_sublist: "c \<in> set (path_parts p) \<Longrightarrow> sublist c p"
  using split_on_sublist posix_root_prefix
  by (auto simp: path_parts_def path_components_def split: if_splits)

lemma split_on_lower:
  "split_on CHR ''/'' (str_lower s) = map str_lower (split_on CHR ''/'' s)"
  by (induction s) (auto simp: str_lower_def split: list.splits)

lemma str_lower_eq_dot: "str_lower x = ''.'' \<longleftrightarrow> x = ''.''"
  by (cases x; cases "tl x") (auto simp: str_lower_def)

lemma path_components_lower:
  "path_components (str_lower p) = map str_lower (path_components p)"
  by (simp add: path_components_def split_on_lower filter_map comp_def str_lower_eq_dot)
     (simp add: str_lower_def)

lemma posix_root_lower: "posix_root (str_lower p) = posix_root p"
  by (cases p; cases "tl p"; cases "tl (tl p)") (auto simp: posix_root_def str_lower_def)

lemma path_parts_lower: "path_parts (str_lower p) = map str_lower (path_parts p)"
proof -
  have "str_lower (posix_root p) = posix_root p"
    by (cases p; cases "tl p"; cases "tl (tl p)")
       (auto simp: posix_root_def str_lower_def lower_char_def upper_letters_def lower_letters_def)
  then show ?thesis
    by (simp add: path_parts_def posix_root_lower path_components_lower)
qed

lemma matches_protected_iff:
  "matches_protected ps s \<longleftrightarrow> (\<exists>p \<in> set ps. sublist (str_lower p) s)"
  by (induction ps) auto

lemma is_protected_path_iff:
  "is_protected_path cfg path \<longleftrightarrow>
     (\<exists>p \<in> set (SYSTEM_PROTECTED cfg). sublist (str_lower p) (str_lower path))
     \<or> (\<exists>c \<in> set (path_parts path). str_lower c \<in> set system_indicators)"
  by (auto simp: is_protected_path_def Let_def matches_protected_iff list_ex_iff path_parts_lower)

lemma component_protected_imp:
  assumes "component_protected cfg path"
  shows "is_protected_path cfg path"
proof -
  from assms obtain c where c: "c \<in> set (path_parts path)"
    and m: "(\<exists>p \<in> set (SYSTEM_PROTECTED cfg). str_lower c = str_lower p)
            \<or> str_lower c \<in> set system_indicators"
    by (auto simp: component_protected_def list_ex_iff)
  from m show ?thesis
  proof
    assume "\<exists>p \<in> set (SYSTEM_PROTECTED cfg). str_lower c = str_lower p"
    then obtain p where p: "p \<in> set (SYSTEM_PROTECTED cfg)" and e: "str_lower c = str_lower p"
      by blast
    from c have "str_lower c \<in> set (path_parts (str_lower path))"
      by (simp add: path_parts_lower)
    then have "sublist (str_lower p) (str_lower path)"
      using path_parts_sublist e by simp
    with p show ?thesis by (auto simp: is_protected_path_iff)
  next
    assume "str_lower c \<in> set system_indicators"
    with c show ?thesis by (auto simp: is_protected_path_iff)
  qed
qed

text \<open>
  Claim C4, as the code has it: \<^verbatim>\<open>is_protected_path\<close> returns true exactly when some
  denylist entry, lower-cased, occurs as a contiguous substring of the lower-cased path, or
  some part of the path is an indicator token up to case.  Hence every path with a component
  that equals a denylist entry up to case, or is an indicator token, is protected (the
  converse fails, see the counterexample below).
\<close>

theorem is_protected_path_substring:
  "(is_protected_path cfg path \<longleftrightarrow>
      (\<exists>p \<in> set (SYSTEM_PROTECTED cfg). sublist (str_lower p) (str_lower path))
      \<or> (\<exists>c \<in> set (path_parts path). str_lower c \<in> set system_indicators))
   \<and> (component_protected cfg path \<longrightarrow> is_protected_path cfg path)"
  using is_protected_path_iff component_protected_imp by blast

text \<open>The theorem at a path under a \<^verbatim>\<open>Windows\<close> folder.\<close>

theorem is_protected_path_substring_witness:
  "component_protected default_config ''/mnt/Windows/notes.txt''
   \<and> is_protected_path default_config ''/mnt/Windows/notes.txt''"
proof -
  have c: "component_protected default_config ''/mnt/Windows/notes.txt''"
    by code_simp
  with is_protected_path_substring [of default_config "''/mnt/Windows/notes.txt''"]
  show ?thesis by blast
qed

text \<open>
  Claim C4 as stated fails: no component of \<^verbatim>\<open>/home/user/bootcamp/notes.txt\<close> equals a
  denylist entry or an indicator token, yet the path is protected, because \<^verbatim>\<open>boot\<close> occurs
  inside \<^verbatim>\<open>bootcamp\<close>.
\<close>

theorem is_protected_path_component_counterexample:
  "is_protected_path default_config ''/home/user/bootcamp/notes.txt''
   \<and> \<not> component_protected default_config ''/home/user/bootcamp/notes.txt''"
  by code_simp

section \<open>Properties of the duplicate map file\<close>

text \<open>
  Claim C8: the dictionary written by \<^verbatim>\<open>save_duplicate_map\<close> has exactly the hashes whose
  path list has at least two entries, with their lists unchanged; a hash with a single path
  is never written.
\<close>

theorem save_duplicate_map_groups:
  "dom (save_duplicate_map org) = {k. \<exists>v. duplicate_map org k = Some v \<and> 2 \<le> length v}
   \<and> (\<forall>k v. save_duplicate_map org k = Some v \<longrightarrow> duplicate_map org k = Some v)
   \<and> (\<forall>k v. duplicate_map org k = Some v \<and> length v = 1 \<longrightarrow> save_duplicate_map org k = None)"
  by (auto simp: save_duplicate_map_def split: option.splits if_splits)

lemma two_copies_map:
  "duplicate_map two_copies_run ''0cc1'' = Some [''/t/Documents/Text/x.txt'', ''/t/Documents/Text/x (1).txt'']
   \<and> duplicate_map two_copies_run ''77aa'' = Some [''/t/Documents/PDF/z.pdf'']
   \<and> duplicates (stats two_copies_run) = 1 \<and> moved (stats two_copies_run) = 3"
  by code_simp

text \<open>The theorem on the map left by the three moves of two identical files and a third one:
  one group of two paths is written, the single path is not.\<close>

theorem save_duplicate_map_groups_witness:
  "save_duplicate_map two_copies_run ''0cc1''
     = Some [''/t/Documents/Text/x.txt'', ''/t/Documents/Text/x (1).txt'']
   \<and> save_duplicate_map two_copies_run ''77aa'' = None
   \<and> ''0cc1'' \<in> dom (save_duplicate_map two_copies_run)"
proof -
  have m1: "duplicate_map two_copies_run ''0cc1''
              = Some [''/t/Documents/Text/x.txt'', ''/t/Documents/Text/x (1).txt'']"
    and m2: "duplicate_map two_copies_run ''77aa'' = Some [''/t/Documents/PDF/z.pdf'']"
    using two_copies_map by blast+
  note t = save_duplicate_map_groups [of two_copies_run]
  from t have t1: "dom (save_duplicate_map two_copies_run)
      = {k. \<exists>v. duplicate_map two_copies_run k = Some v \<and> 2 \<le> length v}"
    by (rule conjunct1)
  from t have t2: "\<forall>k v. save_duplicate_map two_copies_run k = Some v
      \<longrightarrow> duplicate_map two_copies_run k = Some v"
    by (elim conjE)
  from t have t3: "\<forall>k v. duplicate_map two_copies_run k = Some v \<and> length v = 1
      \<longrightarrow> save_duplicate_map two_copies_run k = None"
    by (elim conjE)
  have a: "save_duplicate_map two_copies_run ''77aa'' = None"
    using t3 [rule_format, of "''77aa''" "[''/t/Documents/PDF/z.pdf'']"] m2 by simp
  have b: "''0cc1'' \<in> dom (save_duplicate_map two_copies_run)"
    unfolding t1 using m1 by simp
  then obtain v where v: "save_duplicate_map two_copies_run ''0cc1'' = Some v" by blast
  with t2 have "duplicate_map two_copies_run ''0cc1'' = Some v" by blast
  with m1 v have "save_duplicate_map two_copies_run ''0cc1''
     = Some [''/t/Documents/Text/x.txt'', ''/t/Documents/Text/x (1).txt'']" by simp
  with a b show ?thesis by blast
qed

section \<open>Properties of the Destination Resolver\<close>

lemma digit_char_inj: "a < 10 \<Longrightarrow> b < 10 \<Longrightarrow> digit_char a = digit_char b \<Longrightarrow> a = b"
proof -
  have ten: "\<And>n::nat. n < 10 \<Longrightarrow> n \<in> {0, 1, 2, 3, 4, 5, 6, 7, 8, 9}" by auto
  assume "a < 10" "b < 10" "digit_char a = digit_char b"
  with ten [of a] ten [of b] show ?thesis
    by (auto simp: digit_char_def)
qed

lemma string_of_nat_small: "n < 10 \<Longrightarrow> string_of_nat n = [digit_char n]"
  by (subst string_of_nat.simps) simp

lemma string_of_nat_big:
  "\<not> n < 10 \<Longrightarrow> string_of_nat n = string_of_nat (n div 10) @ [digit_char (n mod 10)]"
  by (subst string_of_nat.simps) simp

lemma string_of_nat_nonempty: "string_of_nat n \<noteq> []"
proof (cases "n < 10")
  case True
  then show ?thesis by (simp add: string_of_nat_small)
next
  case False
  then show ?thesis using string_of_nat_big [of n] by simp
qed

lemma string_of_nat_big_length: "\<not> n < 10 \<Longrightarrow> 2 \<le> length (string_of_nat n)"
proof -
  assume "\<not> n < 10"
  then have "string_of_nat n = string_of_nat (n div 10) @ [digit_char (n mod 10)]"
    by (rule string_of_nat_big)
  moreover have "string_of_nat (n div 10) \<noteq> []" by (rule string_of_nat_nonempty)
  ultimately show ?thesis by (cases "string_of_nat (n div 10)") simp_all
qed

lemma string_of_nat_inj: "string_of_nat m = string_of_nat n \<Longrightarrow> m = n"
proof (induction m arbitrary: n rule: string_of_nat.induct)
  case (1 m)
  show ?case
  proof (cases "m < 10")
    case True
    have n: "n < 10"
    proof (rule ccontr)
      assume "\<not> n < 10"
      then have "2 \<le> length (string_of_nat n)" by (rule string_of_nat_big_length)
      moreover have "string_of_nat n = [digit_char m]"
        using 1(2) True by (simp add: string_of_nat_small)
      ultimately show False by simp
    qed
    with 1(2) True show ?thesis
      using digit_char_inj [of m n] by (simp add: string_of_nat_small)
  next
    case False
    have n: "\<not> n < 10"
    proof
      assume "n < 10"
      then have "length (string_of_nat n) = 1" by (simp add: string_of_nat_small)
      moreover have "2 \<le> length (string_of_nat m)"
        using False by (rule string_of_nat_big_length)
      ultimately show False unfolding 1(2) by simp
    qed
    from 1(2) string_of_nat_big [OF False] string_of_nat_big [OF n]
    have "string_of_nat (m div 10) @ [digit_char (m mod 10)]
          = string_of_nat (n div 10) @ [digit_char (n mod 10)]" by simp
    then have a: "string_of_nat (m div 10) = string_of_nat (n div 10)"
      and b: "digit_char (m mod 10) = digit_char (n mod 10)"
      by simp_all
    from 1(1) [OF False a] have d: "m div 10 = n div 10" .
    from b have "m mod 10 = n mod 10" by (intro digit_char_inj) simp_all
    with d show ?thesis by (metis div_mult_mod_eq)
  qed
qed

lemma rename_loop_first:
  assumes "c \<le> k" "k \<le> 1000"
    and "\<not> path_exists os w (rename_candidate p s x k)"
    and "\<forall>j. c \<le> j \<and> j < k \<longrightarrow> path_exists os w (rename_candidate p s x j)"
  shows "rename_loop os w p s x c = rename_candidate p s x k"
  using assms
proof (induction "k - c" arbitrary: c)
  case 0
  then have "c = k" by simp
  with 0 show ?case by (subst rename_loop.simps) simp
next
  case (Suc d)
  then have lt: "c < k" by simp
  with Suc.prems have ex: "path_exists os w (rename_candidate p s x c)" by simp
  from lt Suc.prems have le: "\<not> c + 1 > 1000" by simp
  have "rename_loop os w p s x (c + 1) = rename_candidate p s x k"
    using Suc.hyps Suc.prems lt by (intro Suc.hyps(1)) auto
  with ex le show ?case by (subst rename_loop.simps) simp
qed

lemma rename_loop_fallback:
  assumes "c \<le> 1000"
    and "\<forall>j. c \<le> j \<and> j \<le> 1000 \<longrightarrow> path_exists os w (rename_candidate p s x j)"
  shows "rename_loop os w p s x c = timestamp_candidate os w p s x"
  using assms
proof (induction "1000 - c" arbitrary: c)
  case 0
  then have "c = 1000" by simp
  with 0 show ?case by (subst rename_loop.simps) simp
next
  case (Suc d)
  then have lt: "c < 1000" by simp
  with Suc.prems have ex: "path_exists os w (rename_candidate p s x c)" by simp
  have "rename_loop os w p s x (c + 1) = timestamp_candidate os w p s x"
    using Suc.hyps Suc.prems lt by (intro Suc.hyps(1)) auto
  with ex lt show ?case by (subst rename_loop.simps) simp
qed

text \<open>
  The \<^verbatim>\<open>RENAME\<close> branch of \<^verbatim>\<open>generate_unique_filename\<close> is total: it returns the first
  of the probes 1 to 1000 at which nothing exists, and the time-stamped name when all of them
  exist; it leaves the world as it is.
\<close>

lemma generate_unique_filename_unfold:
  "generate_unique_filename os w target RENAME =
     (w, Inr (Some (rename_loop os w (path_parent target) (path_stem target)
                      (path_suffix target) 1)))"
  by (simp add: generate_unique_filename_def)

lemma generate_unique_filename_rename:
  fixes target :: string
  defines "cand \<equiv> rename_candidate (path_parent target) (path_stem target) (path_suffix target)"
  shows "generate_unique_filename os w target RENAME =
     (w, Inr (Some (if \<exists>k. 1 \<le> k \<and> k \<le> 1000 \<and> \<not> path_exists os w (cand k)
                    then cand (LEAST k. 1 \<le> k \<and> \<not> path_exists os w (cand k))
                    else timestamp_candidate os w (path_parent target) (path_stem target)
                           (path_suffix target))))"
proof (cases "\<exists>k. 1 \<le> k \<and> k \<le> 1000 \<and> \<not> path_exists os w (cand k)")
  case True
  define k where "k = (LEAST k. 1 \<le> k \<and> \<not> path_exists os w (cand k))"
  from True obtain k0 where k0: "1 \<le> k0" "k0 \<le> 1000" "\<not> path_exists os w (cand k0)" by blast
  then have P: "1 \<le> k \<and> \<not> path_exists os w (cand k)"
    unfolding k_def by (intro LeastI [of "\<lambda>k. 1 \<le> k \<and> \<not> path_exists os w (cand k)" k0]) simp
  have kle: "k \<le> k0" unfolding k_def using k0 by (intro Least_le) simp
  have least: "\<forall>j. 1 \<le> j \<and> j < k \<longrightarrow> path_exists os w (cand j)"
    unfolding k_def using not_less_Least by blast
  have rl: "rename_loop os w (path_parent target) (path_stem target) (path_suffix target) 1
      = cand k"
    unfolding cand_def
    using P kle k0 least by (intro rename_loop_first) (auto simp: cand_def)
  have e: "(if \<exists>k. 1 \<le> k \<and> k \<le> 1000 \<and> \<not> path_exists os w (cand k)
            then cand (LEAST k. 1 \<le> k \<and> \<not> path_exists os w (cand k))
            else timestamp_candidate os w (path_parent target) (path_stem target)
                   (path_suffix target)) = cand k"
    using True unfolding k_def by (rule if_P)
  show ?thesis unfolding generate_unique_filename_unfold rl e ..
next
  case False
  then have "\<forall>j. 1 \<le> j \<and> j \<le> 1000 \<longrightarrow> path_exists os w (cand j)" by blast
  then have rl: "rename_loop os w (path_parent target) (path_stem target) (path_suffix target) 1
      = timestamp_candidate os w (path_parent target) (path_stem target) (path_suffix target)"
    unfolding cand_def by (intro rename_loop_fallback) auto
  have e: "(if \<exists>k. 1 \<le> k \<and> k \<le> 1000 \<and> \<not> path_exists os w (cand k)
            then cand (LEAST k. 1 \<le> k \<and> \<not> path_exists os w (cand k))
            else timestamp_candidate os w (path_parent target) (path_stem target)
                   (path_suffix target))
           = timestamp_candidate os w (path_parent target) (path_stem target)
               (path_suffix target)"
    using False by (rule if_not_P)
  show ?thesis unfolding generate_unique_filename_unfold rl e ..
qed

text \<open>The two resolvers on the same conflict: the original engine probes \<^verbatim>\<open>x (1).txt\<close>,
  the improved engine \<^verbatim>\<open>x_(1).txt\<close>.\<close>

lemma resolver_examples:
  "snd (generate_unique_filename sim_os small_file_world ''/a/x.txt'' RENAME)
     = Inr (Some ''/a/x (1).txt'')
   \<and> resolve_file_conflict sim_os small_file_world ''/q/x.txt'' ''/a/x.txt''
       = Some ''/a/x_(1).txt''"
  by code_simp

lemma resolve_loop_from:
  assumes "c \<le> k"
    and "\<forall>j. c \<le> j \<and> j < k \<longrightarrow> path_exists os w (conflict_candidate base ext j)"
    and "\<not> path_exists os w (conflict_candidate base ext k)"
  shows "resolve_loop os w base ext (conflict_candidate base ext c) (c + 1)
         = Some (conflict_candidate base ext k)"
  using assms
proof (induction "k - c" arbitrary: c)
  case 0
  then have "c = k" by simp
  with 0 show ?case by (subst resolve_loop.simps) simp
next
  case (Suc d)
  then have lt: "c < k" by simp
  with Suc.prems have ex: "path_exists os w (conflict_candidate base ext c)" by simp
  have "resolve_loop os w base ext (conflict_candidate base ext (c + 1)) (c + 1 + 1)
        = Some (conflict_candidate base ext k)"
    using Suc.hyps Suc.prems lt by (intro Suc.hyps(1)) auto
  with ex show ?case
    by (subst resolve_loop.simps) (simp add: conflict_candidate_def)
qed

lemma resolve_file_conflict_first:
  assumes "os_path_splitext dest = (base, ext)"
    and "path_exists os w dest"
    and "1 \<le> k"
    and "\<forall>j. 1 \<le> j \<and> j < k \<longrightarrow> path_exists os w (conflict_candidate base ext j)"
    and "\<not> path_exists os w (conflict_candidate base ext k)"
  shows "resolve_file_conflict os w src dest = Some (conflict_candidate base ext k)"
proof -
  have "resolve_loop os w base ext dest 1
        = resolve_loop os w base ext (conflict_candidate base ext 1) (1 + 1)"
    using assms(2) by (subst resolve_loop.simps) (simp add: conflict_candidate_def)
  also have "\<dots> = Some (conflict_candidate base ext k)"
    using assms(3-5) by (intro resolve_loop_from) auto
  finally show ?thesis using assms(1) by (simp add: resolve_file_conflict_def)
qed

lemma crowded_exists:
  "sim_exists crowded_world p \<longleftrightarrow>
     p \<in> {''/'', ''/t'', ''/t/a.txt''} \<or> (\<exists>k. 1 \<le> k \<and> k \<le> 1000 \<and> p = conflict_candidate ''/t/a'' ''.txt'' k)"
proof -
  have "sim_exists crowded_world p \<longleftrightarrow> p \<in> fst ` set (nodes crowded_world)"
    by (simp add: sim_exists_def sim_lookup_def map_of_eq_None_iff)
  also have "fst ` set (nodes crowded_world)
      = {''/'', ''/t'', ''/t/a.txt''} \<union> (conflict_candidate ''/t/a'' ''.txt'') ` {1 ..< 1001}"
    by (simp add: crowded_world_def sim_fs_def image_Un image_image)
  finally show ?thesis by auto
qed

text \<open>
  Claim C5 on \<^verbatim>\<open>resolve_file_conflict\<close> of the improved engine: with \<^verbatim>\<open>/t/a.txt\<close> and its
  thousand numbered siblings taken, the loop goes on to probe number 1001 and returns it;
  there is no limit of 1000 probes and no time-stamped fallback.
\<close>

theorem resolve_file_conflict_no_limit:
  "resolve_file_conflict sim_os crowded_world ''/s/a.txt'' ''/t/a.txt'' = Some ''/t/a_(1001).txt''"
proof -
  have se: "os_path_splitext ''/t/a.txt'' = (''/t/a'', ''.txt'')" by code_simp
  have pe: "path_exists sim_os = sim_exists" by (simp add: sim_os_def)
  have last: "conflict_candidate ''/t/a'' ''.txt'' 1001 = ''/t/a_(1001).txt''" by code_simp
  have inj: "\<And>j k. conflict_candidate ''/t/a'' ''.txt'' j = conflict_candidate ''/t/a'' ''.txt'' k
      \<Longrightarrow> j = k"
    by (simp add: conflict_candidate_def string_of_nat_inj)
  have fresh: "\<not> sim_exists crowded_world (conflict_candidate ''/t/a'' ''.txt'' 1001)"
  proof
    assume "sim_exists crowded_world (conflict_candidate ''/t/a'' ''.txt'' 1001)"
    then consider
        "conflict_candidate ''/t/a'' ''.txt'' 1001 \<in> {''/'', ''/t'', ''/t/a.txt''}"
      | k where "k \<le> 1000"
          "conflict_candidate ''/t/a'' ''.txt'' 1001 = conflict_candidate ''/t/a'' ''.txt'' k"
      unfolding crowded_exists by blast
    then show False
    proof cases
      case 1
      then show False unfolding last by simp
    next
      case (2 k)
      from inj [OF 2(2)] 2(1) show False by simp
    qed
  qed
  have "resolve_file_conflict sim_os crowded_world ''/s/a.txt'' ''/t/a.txt''
        = Some (conflict_candidate ''/t/a'' ''.txt'' 1001)"
    using fresh by (intro resolve_file_conflict_first [OF se]) (auto simp: pe crowded_exists)
  with last show ?thesis by simp
qed

section \<open>Properties of the Classifier\<close>

text \<open>In \<^verbatim>\<open>process_file\<close> of \<^verbatim>\<open>enhanced_file_organizer.py\<close> a file below the threshold
  goes to the junk folder, whatever the mode.\<close>

lemma process_file_junk_precedence:
  assumes "getsize os w file_path = Inr sz"
    and "(of_int sz :: rat) / 1024 < of_int junk_threshold"
  shows "process_file_destination os cfg w target junk_threshold mode file_path
         = Inr (os_path_join (os_path_join target (JUNK_FOLDER cfg)) (os_path_basename file_path),
                True)"
  using assms by (simp add: process_file_destination_def)

lemma process_file_junk_example:
  "process_file_destination sim_os default_config small_file_world ''/t'' 10 BY_EXTENSION
     ''/a/x.txt'' = Inr (''/t/Junk/x.txt'', True)"
  by code_simp

text \<open>
  Claim C6 on the improved engine: a file of 5 KB is sent to its category, date, size or
  extension folder under the four modes, never to the junk folder; no threshold reaches
  \<^verbatim>\<open>process_files_batch\<close>.
\<close>

theorem process_files_batch_ignores_junk:
  "sim_getsize small_file_world ''/a/x.txt'' = Inr 5120
   \<and> process_files_batch_destination sim_os improved_config small_file_world ''/t'' BY_TYPE
        ''/a/x.txt'' = Some ''/t/Documents/Text/x.txt''
   \<and> process_files_batch_destination sim_os improved_config small_file_world ''/t'' BY_DATE
        ''/a/x.txt'' = Some ''/t/2024/03-March/x.txt''
   \<and> process_files_batch_destination sim_os improved_config small_file_world ''/t'' BY_SIZE
        ''/a/x.txt'' = Some ''/t/Small/x.txt''
   \<and> process_files_batch_destination sim_os improved_config small_file_world ''/t'' BY_EXTENSION
        ''/a/x.txt'' = Some ''/t/txt/x.txt''"
  by code_simp

section \<open>Properties of the Move Transaction Engine\<close>

lemma track_duplicates_log [simp]:
  "operations_log (track_duplicates org h d) = operations_log org"
  by (simp add: track_duplicates_def Let_def split: option.splits)

lemma track_duplicates_stats [simp]:
  "moved (stats (track_duplicates org h d)) = moved (stats org)"
  "skipped (stats (track_duplicates org h d)) = skipped (stats org)"
  "errors (stats (track_duplicates org h d)) = errors (stats org)"
  "total_size (stats (track_duplicates org h d)) = total_size (stats org)"
  by (simp_all add: track_duplicates_def Let_def split: option.splits)

lemma transfer_and_log_raises:
  "transfer_and_log os org w src dest dh = (org1, w1, Inl e) \<Longrightarrow> org1 = org"
  by (auto simp: transfer_and_log_def Let_def split: sum.splits prod.splits option.splits)

lemma move_file_safe_try_raises:
  "move_file_safe_try os org w src dest dh = (org1, w1, Inl e) \<Longrightarrow> org1 = org"
  by (auto simp: move_file_safe_try_def split: sum.splits prod.splits option.splits
           dest: transfer_and_log_raises)

text \<open>
  Claim C1: when the body of \<^verbatim>\<open>move_file_safe\<close> raises an I/O error, the function returns
  \<^verbatim>\<open>False\<close>, the \<^verbatim>\<open>errors\<close> counter goes up by exactly one, and the journal, the counters
  \<^verbatim>\<open>moved\<close>, \<^verbatim>\<open>skipped\<close>, \<^verbatim>\<open>total_size\<close>, \<^verbatim>\<open>duplicates\<close> and the duplicate map are as
  before the attempt.
\<close>

theorem move_file_safe_failure_accounting:
  assumes "snd (snd (move_file_safe_try os org w src dest dh)) = Inl e"
  shows "snd (snd (move_file_safe os org w src dest dh)) = False
         \<and> errors (stats (fst (move_file_safe os org w src dest dh))) = errors (stats org) + 1
         \<and> operations_log (fst (move_file_safe os org w src dest dh)) = operations_log org
         \<and> moved (stats (fst (move_file_safe os org w src dest dh))) = moved (stats org)
         \<and> skipped (stats (fst (move_file_safe os org w src dest dh))) = skipped (stats org)
         \<and> total_size (stats (fst (move_file_safe os org w src dest dh)))
             = total_size (stats org)
         \<and> duplicates (stats (fst (move_file_safe os org w src dest dh)))
             = duplicates (stats org)
         \<and> duplicate_map (fst (move_file_safe os org w src dest dh)) = duplicate_map org"
proof -
  obtain org1 w1 r where t: "move_file_safe_try os org w src dest dh = (org1, w1, r)"
    by (cases "move_file_safe_try os org w src dest dh") auto
  with assms have r: "r = Inl e" by simp
  with t have "org1 = org" by (auto dest: move_file_safe_try_raises)
  with t r show ?thesis
    by (simp add: move_file_safe_def bump_errors_def)
qed

text \<open>The theorem on an attempt to move a file that does not exist: \<^verbatim>\<open>os.path.getsize\<close>
  raises, one error is counted and nothing is journaled.\<close>

theorem move_file_safe_failure_accounting_witness:
  "snd (snd (move_file_safe_try sim_os init_organizer small_file_world ''/a/gone.txt''
              ''/t/Junk/gone.txt'' RENAME)) = Inl FileNotFoundError
   \<and> snd (snd (move_file_safe sim_os init_organizer small_file_world ''/a/gone.txt''
              ''/t/Junk/gone.txt'' RENAME)) = False
   \<and> errors (stats (fst (move_file_safe sim_os init_organizer small_file_world ''/a/gone.txt''
              ''/t/Junk/gone.txt'' RENAME))) = 1
   \<and> operations_log (fst (move_file_safe sim_os init_organizer small_file_world ''/a/gone.txt''
              ''/t/Junk/gone.txt'' RENAME)) = []"
proof -
  have h: "snd (snd (move_file_safe_try sim_os init_organizer small_file_world ''/a/gone.txt''
              ''/t/Junk/gone.txt'' RENAME)) = Inl FileNotFoundError"
    by code_simp
  from move_file_safe_failure_accounting [OF h] h show ?thesis
    by (simp add: init_organizer_def)
qed


lemma transfer_and_log_cases:
  assumes "transfer_and_log os org w src dest dh = (org1, w1, r)"
  shows "(r = Inr True \<and> (\<exists>op. operations_log org1 = operations_log org @ [op])
            \<and> moved (stats org1) = moved (stats org) + 1
            \<and> skipped (stats org1) = skipped (stats org)
            \<and> errors (stats org1) = errors (stats org))
         \<or> ((\<exists>e. r = Inl e) \<and> org1 = org)"
  using assms
  by (auto simp: transfer_and_log_def Let_def split: sum.splits prod.splits option.splits)

lemma move_file_safe_cases:
  assumes "move_file_safe os org w src dest dh = (org1, w1, r)"
  shows "(r \<and> (\<exists>op. operations_log org1 = operations_log org @ [op])
            \<and> moved (stats org1) = moved (stats org) + 1
            \<and> skipped (stats org1) = skipped (stats org)
            \<and> errors (stats org1) = errors (stats org))
         \<or> (\<not> r \<and> operations_log org1 = operations_log org
            \<and> moved (stats org1) = moved (stats org)
            \<and> skipped (stats org1) + errors (stats org1)
                = skipped (stats org) + errors (stats org) + 1)"
proof -
  obtain w2 res where fields: "resolve_destination os w dest dh = (w2, res)"
    by (cases "resolve_destination os w dest dh") auto
  show ?thesis
  proof (cases res)
    case (Inl e)
    with fields assms show ?thesis
      by (auto simp: move_file_safe_def move_file_safe_try_def bump_errors_def)
  next
    case (Inr fin)
    show ?thesis
    proof (cases fin)
      case None
      with Inr fields assms show ?thesis
        by (auto simp: move_file_safe_def move_file_safe_try_def bump_skipped_def)
    next
      case (Some d)
      obtain org2 w3 r2 where t: "transfer_and_log os org w2 src d dh = (org2, w3, r2)"
        by (cases "transfer_and_log os org w2 src d dh") auto
      from transfer_and_log_cases [OF t] Some Inr fields assms t show ?thesis
        by (auto simp: move_file_safe_def move_file_safe_try_def bump_errors_def)
    qed
  qed
qed

lemma move_file_safe_invariant:
  assumes "moved (stats org) = length (operations_log org)"
  shows "moved (stats (fst (move_file_safe os org w src dest dh)))
         = length (operations_log (fst (move_file_safe os org w src dest dh)))"
proof -
  obtain org1 w1 r where m: "move_file_safe os org w src dest dh = (org1, w1, r)"
    by (cases "move_file_safe os org w src dest dh") auto
  from move_file_safe_cases [OF m] assms m show ?thesis by auto
qed

lemma process_file_invariant:
  assumes "moved (stats (fst st)) = length (operations_log (fst st))"
  shows "moved (stats (fst (process_file os cfg target thr mode dh dry st f)))
         = length (operations_log (fst (process_file os cfg target thr mode dh dry st f)))"
proof -
  obtain org w js p where st: "st = (org, w, js, p)" by (cases st) auto
  show ?thesis
  proof (cases "process_file_destination os cfg w target thr mode f")
    case (Inl e)
    with st assms show ?thesis
      by (simp add: process_file_def bump_errors_def)
  next
    case (Inr dj)
    obtain d j where dj: "dj = (d, j)" by (cases dj) auto
    obtain org1 w1 r where m: "move_file_safe os org w f d dh = (org1, w1, r)"
      by (cases "move_file_safe os org w f d dh") auto
    from move_file_safe_invariant [of org os w f d dh] assms st m
    have "moved (stats org1) = length (operations_log org1)" by simp
    with Inr dj st m assms show ?thesis
      by (simp add: process_file_def Let_def)
  qed
qed

lemma move_attempts_invariant:
  "moved (stats (fst st)) = length (operations_log (fst st)) \<Longrightarrow>
   moved (stats (fst (move_attempts os st attempts)))
   = length (operations_log (fst (move_attempts os st attempts)))"
proof (induction attempts arbitrary: st)
  case Nil
  then show ?case by simp
next
  case (Cons a rest)
  obtain src dest dh where a: "a = (src, dest, dh)" by (cases a) auto
  obtain org1 w1 r where m: "move_file_safe os (fst st) (snd st) src dest dh = (org1, w1, r)"
    by (cases "move_file_safe os (fst st) (snd st) src dest dh") auto
  from move_file_safe_invariant [OF Cons.prems, of os "snd st" src dest dh] m
  have "moved (stats (fst (org1, w1))) = length (operations_log (fst (org1, w1)))" by simp
  from Cons.IH [OF this] a m show ?case by simp
qed

text \<open>
  Claim C7: a call of \<^verbatim>\<open>move_file_safe\<close> that returns \<^verbatim>\<open>True\<close> appends exactly one operation
  and adds exactly one to \<^verbatim>\<open>moved\<close>; a call that returns \<^verbatim>\<open>False\<close> (a skip or an error)
  changes neither; so the equality of \<^verbatim>\<open>moved\<close> and the journal's length is kept by
  every call of \<^verbatim>\<open>move_file_safe\<close> and of \<^verbatim>\<open>process_file\<close>, and it holds after every
  sequence of move attempts, in whatever order and with whatever sources, destinations and
  policies, from a fresh organizer.
\<close>

theorem moved_equals_journal_length:
  "(if snd (snd (move_file_safe os org w src dest dh))
    then (\<exists>op. operations_log (fst (move_file_safe os org w src dest dh))
                 = operations_log org @ [op])
         \<and> moved (stats (fst (move_file_safe os org w src dest dh))) = moved (stats org) + 1
    else operations_log (fst (move_file_safe os org w src dest dh)) = operations_log org
         \<and> moved (stats (fst (move_file_safe os org w src dest dh))) = moved (stats org))
   \<and> (moved (stats org) = length (operations_log org) \<longrightarrow>
        moved (stats (fst (move_file_safe os org w src dest dh)))
        = length (operations_log (fst (move_file_safe os org w src dest dh))))
   \<and> (moved (stats org) = length (operations_log org) \<longrightarrow>
        moved (stats (fst (process_file os cfg target thr mode dh dry
                             (org, w, junk_files, processed) file_path)))
        = length (operations_log (fst (process_file os cfg target thr mode dh dry
                             (org, w, junk_files, processed) file_path))))
   \<and> moved (stats (fst (move_attempts os (init_organizer, w) attempts)))
       = length (operations_log (fst (move_attempts os (init_organizer, w) attempts)))"
proof -
  obtain org1 w1 r where m: "move_file_safe os org w src dest dh = (org1, w1, r)"
    by (cases "move_file_safe os org w src dest dh") auto
  have a: "if snd (snd (move_file_safe os org w src dest dh))
    then (\<exists>op. operations_log (fst (move_file_safe os org w src dest dh))
                 = operations_log org @ [op])
         \<and> moved (stats (fst (move_file_safe os org w src dest dh))) = moved (stats org) + 1
    else operations_log (fst (move_file_safe os org w src dest dh)) = operations_log org
         \<and> moved (stats (fst (move_file_safe os org w src dest dh))) = moved (stats org)"
    using move_file_safe_cases [OF m] m by auto
  have b: "moved (stats org) = length (operations_log org) \<longrightarrow>
        moved (stats (fst (move_file_safe os org w src dest dh)))
        = length (operations_log (fst (move_file_safe os org w src dest dh)))"
    by (rule impI) (rule move_file_safe_invariant)
  have c: "moved (stats org) = length (operations_log org) \<longrightarrow>
        moved (stats (fst (process_file os cfg target thr mode dh dry
                             (org, w, junk_files, processed) file_path)))
        = length (operations_log (fst (process_file os cfg target thr mode dh dry
                             (org, w, junk_files, processed) file_path)))"
    by (rule impI) (rule process_file_invariant, simp)
  have d: "moved (stats (fst (move_attempts os (init_organizer, w) attempts)))
       = length (operations_log (fst (move_attempts os (init_organizer, w) attempts)))"
    by (rule move_attempts_invariant) (simp add: init_organizer_def)
  show ?thesis by (rule conjI [OF a conjI [OF b conjI [OF c d]]])
qed

text \<open>The theorem on the three moves of two identical files and a third one: three moves
  counted, three journal entries.\<close>

theorem moved_equals_journal_length_witness:
  "moved (stats two_copies_run) = 3 \<and> length (operations_log two_copies_run) = 3"
proof -
  have m: "moved (stats two_copies_run) = 3" using two_copies_map by simp
  note t = moved_equals_journal_length
    [where os = sim_os and w = two_copies_world
       and attempts = "[(''/a/x.txt'', ''/t/Documents/Text/x.txt'', RENAME),
                        (''/a/b/x.txt'', ''/t/Documents/Text/x.txt'', RENAME),
                        (''/a/z.pdf'', ''/t/Documents/PDF/z.pdf'', RENAME)]"]
  have "moved (stats two_copies_run) = length (operations_log two_copies_run)"
    unfolding two_copies_run_def
    by (rule conjunct2 [OF conjunct2 [OF conjunct2 [OF t]]])
  with m show ?thesis by simp
qed

lemma track_duplicates_none [simp]: "track_duplicates org None d = org"
  by (simp add: track_duplicates_def)

lemma track_duplicates_map:
  "duplicate_map (track_duplicates org fh d) =
     (case fh of
        None \<Rightarrow> duplicate_map org
      | Some h \<Rightarrow>
          if h = [] then duplicate_map org
          else (duplicate_map org)
                 (h \<mapsto> (case duplicate_map org h of None \<Rightarrow> [] | Some ps \<Rightarrow> ps) @ [d]))"
  by (simp add: track_duplicates_def Let_def split: option.splits)

lemma transfer_and_log_hash:
  assumes "transfer_and_log os org w src d dh = (org1, w1, Inr True)"
  shows "\<exists>op. operations_log org1 = operations_log org @ [op] \<and> source op = src
           \<and> destination op = d
           \<and> file_hash op = (if dh \<noteq> SKIP then calculate_file_hash os w src else None)
           \<and> duplicate_map org1 =
               (case file_hash op of
                  None \<Rightarrow> duplicate_map org
                | Some h \<Rightarrow>
                    if h = [] then duplicate_map org
                    else (duplicate_map org)
                           (h \<mapsto> (case duplicate_map org h of None \<Rightarrow> [] | Some ps \<Rightarrow> ps) @ [d]))"
proof -
  define fh where "fh = (if dh \<noteq> SKIP then calculate_file_hash os w src else None)"
  from assms obtain sz where gs: "getsize os w src = Inr sz"
    by (cases "getsize os w src") (auto simp: transfer_and_log_def Let_def)
  from assms gs have mv: "shutil_move os w src d = (w1, None)"
    by (cases "shutil_move os w src d")
       (auto simp: transfer_and_log_def Let_def split: option.splits)
  define op where "op = \<lparr>source = src, destination = d, operation = ''move'',
    timestamp = now_iso os w1, size_bytes = sz, file_hash = fh\<rparr>"
  have o: "org1 = fst (transfer_and_log os org w src d dh)"
    using assms by simp
  have l: "operations_log org1 = operations_log org @ [op]"
    unfolding o using gs mv by (simp add: transfer_and_log_def Let_def fh_def op_def)
  have m: "duplicate_map org1 =
      (case fh of
         None \<Rightarrow> duplicate_map org
       | Some h \<Rightarrow>
           if h = [] then duplicate_map org
           else (duplicate_map org)
                  (h \<mapsto> (case duplicate_map org h of None \<Rightarrow> [] | Some ps \<Rightarrow> ps) @ [d]))"
    unfolding o using gs mv
    by (simp add: transfer_and_log_def Let_def fh_def track_duplicates_map
             split: option.splits)
  have "operations_log org1 = operations_log org @ [op] \<and> source op = src
           \<and> destination op = d \<and> file_hash op = fh
           \<and> duplicate_map org1 =
               (case file_hash op of
                  None \<Rightarrow> duplicate_map org
                | Some h \<Rightarrow>
                    if h = [] then duplicate_map org
                    else (duplicate_map org)
                           (h \<mapsto> (case duplicate_map org h of None \<Rightarrow> [] | Some ps \<Rightarrow> ps) @ [d]))"
    using l m by (simp add: op_def)
  then show ?thesis unfolding fh_def by blast
qed

lemma transfer_and_log_moved:
  assumes "transfer_and_log os org w src d dh = (org1, w1, Inr True)"
  shows "shutil_move os w src d = (w1, None)"
proof -
  from assms obtain sz where gs: "getsize os w src = Inr sz"
    by (cases "getsize os w src") (auto simp: transfer_and_log_def Let_def)
  from assms gs show ?thesis
    by (cases "shutil_move os w src d")
       (auto simp: transfer_and_log_def Let_def split: option.splits)
qed

text \<open>
  Claim C9, as the code has it: a successful move under \<^verbatim>\<open>RENAME\<close>, \<^verbatim>\<open>REPLACE\<close> or
  \<^verbatim>\<open>MERGE_TO_DUPLICATES\<close> journals the value of \<^verbatim>\<open>calculate_file_hash\<close> on the source (read
  after the destination is resolved) and, when that value is a non-empty digest, appends the
  final destination to the duplicate map under it; the final destination is the path that
  conflict resolution returned, the one the file is moved to and the one in the journal
  entry; under \<^verbatim>\<open>SKIP\<close> the
  hash is not computed, the journal entry holds \<^verbatim>\<open>None\<close> and the duplicate map is unchanged.
\<close>

theorem move_file_safe_hash_by_policy:
  assumes "snd (snd (move_file_safe os org w src dest dh))"
  shows "\<exists>op. operations_log (fst (move_file_safe os org w src dest dh))
                = operations_log org @ [op]
           \<and> source op = src
           \<and> snd (resolve_destination os w dest dh) = Inr (Some (destination op))
           \<and> shutil_move os (fst (resolve_destination os w dest dh)) src (destination op)
               = (fst (snd (move_file_safe os org w src dest dh)), None)
           \<and> file_hash op =
               (if dh \<noteq> SKIP
                then calculate_file_hash os (fst (resolve_destination os w dest dh)) src
                else None)
           \<and> duplicate_map (fst (move_file_safe os org w src dest dh)) =
               (case file_hash op of
                  None \<Rightarrow> duplicate_map org
                | Some h \<Rightarrow>
                    if h = [] then duplicate_map org
                    else (duplicate_map org)
                           (h \<mapsto> (case duplicate_map org h of None \<Rightarrow> [] | Some ps \<Rightarrow> ps)
                                  @ [destination op]))"
proof -
  obtain w2 res where rd: "resolve_destination os w dest dh = (w2, res)"
    by (cases "resolve_destination os w dest dh") auto
  show ?thesis
  proof (cases res)
    case (Inl e)
    with rd assms show ?thesis
      by (simp add: move_file_safe_def move_file_safe_try_def)
  next
    case (Inr fin)
    show ?thesis
    proof (cases fin)
      case None
      with Inr rd assms show ?thesis
        by (simp add: move_file_safe_def move_file_safe_try_def)
    next
      case (Some d)
      obtain org2 w3 r2 where t: "transfer_and_log os org w2 src d dh = (org2, w3, r2)"
        by (cases "transfer_and_log os org w2 src d dh") auto
      from assms Some Inr rd t have r2: "r2 = Inr True"
        by (cases r2) (auto simp: move_file_safe_def move_file_safe_try_def)
      from transfer_and_log_hash [OF t [unfolded r2]]
        transfer_and_log_moved [OF t [unfolded r2]] Some Inr rd t r2
      show ?thesis
        by (auto simp: move_file_safe_def move_file_safe_try_def)
    qed
  qed
qed

text \<open>The theorem on the 5 KB file under \<^verbatim>\<open>RENAME\<close> with its destination taken: the file
  lands at \<^verbatim>\<open>x (1).txt\<close>, and that path, with the digest, is what the journal and the
  duplicate map hold.\<close>

theorem move_file_safe_hash_by_policy_witness:
  "snd (snd rename_policy_run)
   \<and> map destination (operations_log (fst rename_policy_run))
       = [''/t/Documents/Text/x (1).txt'']
   \<and> map file_hash (operations_log (fst rename_policy_run)) = [Some ''0cc1'']
   \<and> duplicate_map (fst rename_policy_run) ''0cc1'' = Some [''/t/Documents/Text/x (1).txt'']"
proof -
  have r: "snd (snd (move_file_safe sim_os init_organizer conflict_world ''/a/x.txt''
                      ''/t/Documents/Text/x.txt'' RENAME))"
    by code_simp
  have h: "calculate_file_hash sim_os
             (fst (resolve_destination sim_os conflict_world ''/t/Documents/Text/x.txt'' RENAME))
             ''/a/x.txt'' = Some ''0cc1''"
    by code_simp
  have rs: "snd (resolve_destination sim_os conflict_world ''/t/Documents/Text/x.txt'' RENAME)
            = Inr (Some ''/t/Documents/Text/x (1).txt'')"
    by code_simp
  from move_file_safe_hash_by_policy [OF r] obtain op where
    l: "operations_log (fst rename_policy_run) = operations_log init_organizer @ [op]"
    and d: "snd (resolve_destination sim_os conflict_world ''/t/Documents/Text/x.txt'' RENAME)
            = Inr (Some (destination op))"
    and f: "file_hash op =
              (if RENAME \<noteq> SKIP
               then calculate_file_hash sim_os
                      (fst (resolve_destination sim_os conflict_world
                              ''/t/Documents/Text/x.txt'' RENAME)) ''/a/x.txt''
               else None)"
    and m: "duplicate_map (fst rename_policy_run) =
              (case file_hash op of
                 None \<Rightarrow> duplicate_map init_organizer
               | Some h \<Rightarrow>
                   if h = [] then duplicate_map init_organizer
                   else (duplicate_map init_organizer)
                          (h \<mapsto> (case duplicate_map init_organizer h of
                                     None \<Rightarrow> [] | Some ps \<Rightarrow> ps) @ [destination op]))"
    unfolding rename_policy_run_def by blast
  from d rs have d1: "destination op = ''/t/Documents/Text/x (1).txt''" by simp
  from f h have f1: "file_hash op = Some ''0cc1''" by simp
  have l1: "operations_log (fst rename_policy_run) = [op]"
    using l by (simp add: init_organizer_def)
  have m1: "duplicate_map (fst rename_policy_run) ''0cc1''
            = Some [''/t/Documents/Text/x (1).txt'']"
    unfolding m f1 d1 by (simp add: init_organizer_def)
  have r1: "snd (snd rename_policy_run)" unfolding rename_policy_run_def by (rule r)
  show ?thesis unfolding l1 using r1 d1 f1 m1 by simp
qed

text \<open>
  Claim C9 as stated fails under \<^verbatim>\<open>SKIP\<close>: the 5 KB file is moved (the destination is
  free) and its content can be hashed, yet the journal entry holds no hash and the duplicate
  map has no entry for the digest.
\<close>

theorem move_file_safe_skip_counterexample:
  "snd (snd skip_policy_run)
   \<and> calculate_file_hash sim_os small_file_world ''/a/x.txt'' = Some ''0cc1''
   \<and> map source (operations_log (fst skip_policy_run)) = [''/a/x.txt'']
   \<and> map file_hash (operations_log (fst skip_policy_run)) = [None]
   \<and> duplicate_map (fst skip_policy_run) ''0cc1'' = None"
  by code_simp

section \<open>Properties of the Undo Engine\<close>

lemma undo_entry_occupied:
  "path_exists os w (source op_data) \<Longrightarrow>
   undo_entry os (w, t) op_data = (w, t\<lparr>undo_skipped := undo_skipped t + 1\<rparr>)"
  by (simp add: undo_entry_def Let_def)

lemma undo_entry_missing:
  "\<not> path_exists os w (destination op_data) \<Longrightarrow>
   undo_entry os (w, t) op_data = (w, t\<lparr>undo_skipped := undo_skipped t + 1\<rparr>)"
  by (simp add: undo_entry_def Let_def)

lemma undo_entry_failure:
  assumes "path_exists os w (destination op_data)" "\<not> path_exists os w (source op_data)"
    and "snd (mkdir_parents os w (os_path_dirname (source op_data))) \<noteq> None
         \<or> snd (shutil_move os (fst (mkdir_parents os w (os_path_dirname (source op_data))))
                  (destination op_data) (source op_data)) \<noteq> None"
  shows "snd (undo_entry os (w, t) op_data) = t\<lparr>undo_errors := undo_errors t + 1\<rparr>"
  using assms
  by (auto simp: undo_entry_def Let_def split: prod.splits option.splits)

lemma undo_entry_counts:
  "undone (snd (undo_entry os st op_data)) + undo_skipped (snd (undo_entry os st op_data))
     + undo_errors (snd (undo_entry os st op_data))
   = undone (snd st) + undo_skipped (snd st) + undo_errors (snd st) + 1"
  by (cases st) (auto simp: undo_entry_def Let_def split: prod.splits option.splits)

lemma undo_loop_counts:
  "undone (snd (undo_loop os st ops)) + undo_skipped (snd (undo_loop os st ops))
     + undo_errors (snd (undo_loop os st ops))
   = undone (snd st) + undo_skipped (snd st) + undo_errors (snd st) + length ops"
proof (induction ops arbitrary: st)
  case Nil
  show ?case by simp
next
  case (Cons op_data rest)
  show ?case
    using Cons.IH [of "undo_entry os st op_data"] undo_entry_counts [of os st op_data]
    by simp
qed

text \<open>
  Claim C2: an entry whose original location is occupied is counted as skipped and the world
  is left as it is (nothing is moved, the occupant is not overwritten); so is an entry whose
  recorded destination no longer exists; the last entry of the journal is replayed first; an
  exception of \<^verbatim>\<open>os.makedirs\<close> or \<^verbatim>\<open>shutil.move\<close> on an entry adds one to the error tally
  and nothing else; and the replay goes through every entry, each one counted exactly once
  as undone, skipped or error.
\<close>

theorem undo_replay_tallies:
  "(path_exists os w (source op_data) \<longrightarrow>
      undo_entry os (w, t) op_data = (w, t\<lparr>undo_skipped := undo_skipped t + 1\<rparr>))
   \<and> (\<not> path_exists os w (destination op_data) \<longrightarrow>
      undo_entry os (w, t) op_data = (w, t\<lparr>undo_skipped := undo_skipped t + 1\<rparr>))
   \<and> undo_last_organization os w (journal @ [op_data])
       = undo_loop os
           (undo_entry os (w, \<lparr>undone = 0, undo_skipped = 0, undo_errors = 0\<rparr>) op_data)
           (rev journal)
   \<and> (path_exists os w (destination op_data) \<and> \<not> path_exists os w (source op_data)
       \<and> (snd (mkdir_parents os w (os_path_dirname (source op_data))) \<noteq> None
           \<or> snd (shutil_move os (fst (mkdir_parents os w (os_path_dirname (source op_data))))
                    (destination op_data) (source op_data)) \<noteq> None)
       \<longrightarrow> snd (undo_entry os (w, t) op_data) = t\<lparr>undo_errors := undo_errors t + 1\<rparr>)
   \<and> undone (snd (undo_loop os (w, t) (op_data # rest)))
       + undo_skipped (snd (undo_loop os (w, t) (op_data # rest)))
       + undo_errors (snd (undo_loop os (w, t) (op_data # rest)))
       = undone t + undo_skipped t + undo_errors t + 1 + length rest
   \<and> undone (snd (undo_last_organization os w journal))
       + undo_skipped (snd (undo_last_organization os w journal))
       + undo_errors (snd (undo_last_organization os w journal))
       = length journal"
proof -
  have a: "undo_last_organization os w (journal @ [op_data])
       = undo_loop os
           (undo_entry os (w, \<lparr>undone = 0, undo_skipped = 0, undo_errors = 0\<rparr>) op_data)
           (rev journal)"
    by (simp add: undo_last_organization_def)
  have b: "undone (snd (undo_loop os (w, t) (op_data # rest)))
       + undo_skipped (snd (undo_loop os (w, t) (op_data # rest)))
       + undo_errors (snd (undo_loop os (w, t) (op_data # rest)))
       = undone t + undo_skipped t + undo_errors t + 1 + length rest"
    using undo_loop_counts [of os "(w, t)" "op_data # rest"] by simp
  have c: "undone (snd (undo_last_organization os w journal))
       + undo_skipped (snd (undo_last_organization os w journal))
       + undo_errors (snd (undo_last_organization os w journal))
       = length journal"
    unfolding undo_last_organization_def
    using undo_loop_counts
      [of os "(w, \<lparr>undone = 0, undo_skipped = 0, undo_errors = 0\<rparr>)" "rev journal"]
    by simp
  show ?thesis
    using undo_entry_occupied [of os w op_data t] undo_entry_missing [of os w op_data t]
      undo_entry_failure [of os w op_data t] a b c
    by (intro conjI impI) (simp_all only:, blast+)
qed

lemma undo_example:
  "undo_skipped (snd (undo_last_organization sim_os undo_world undo_journal)) = 2
   \<and> undo_errors (snd (undo_last_organization sim_os undo_world undo_journal)) = 1
   \<and> sim_lookup (fst (undo_last_organization sim_os undo_world undo_journal)) ''/a/x.txt''
       = Some (RegularFile 99 (Some ''beef''))
   \<and> sim_lookup (fst (undo_last_organization sim_os undo_world undo_journal)) ''/t/x.txt''
       = Some (RegularFile 7 (Some ''0cc1''))
   \<and> sim_lookup (fst (undo_last_organization sim_os undo_world undo_journal)) ''/a/back.txt''
       = Some (RegularFile 7 (Some ''0cc3''))"
  by code_simp

text \<open>The theorem on a journal of four entries: the occupied original and the vanished
  file are skipped, the occupant keeps its content, the entry whose parent cannot be created
  is an error, and the entry after it is still undone.\<close>

theorem undo_replay_tallies_witness:
  "undo_skipped (snd (undo_last_organization sim_os undo_world undo_journal)) = 2
   \<and> undo_errors (snd (undo_last_organization sim_os undo_world undo_journal)) = 1
   \<and> undone (snd (undo_last_organization sim_os undo_world undo_journal)) = 1
   \<and> sim_lookup (fst (undo_last_organization sim_os undo_world undo_journal)) ''/a/x.txt''
       = Some (RegularFile 99 (Some ''beef''))"
proof -
  have l: "length undo_journal = 4" by (simp add: undo_journal_def)
  have "undone (snd (undo_last_organization sim_os undo_world undo_journal))
       + undo_skipped (snd (undo_last_organization sim_os undo_world undo_journal))
       + undo_errors (snd (undo_last_organization sim_os undo_world undo_journal))
       = length undo_journal"
    using undo_replay_tallies
      [of sim_os undo_world "hd undo_journal"
          "\<lparr>undone = 0, undo_skipped = 0, undo_errors = 0\<rparr>" undo_journal "[]"]
    by (elim conjE)
  with l undo_example show ?thesis by simp
qed

section \<open>Properties of the Empty-Directory Reaper\<close>

lemma set_set_add [simp]: "set (set_add x xs) = insert x (set xs)"
  by (auto simp: set_add_def)

lemma has_real_content_hidden:
  "\<forall>e \<in> set entries. entry_is_file e
      \<and> (startswith (entry_name e) ''.'' \<or> startswith (entry_name e) ''~'')
   \<Longrightarrow> \<not> has_real_content empty_dirs entries"
  by (induction entries) auto

lemma scan_directory_mono: "set acc \<subseteq> set (scan_directory os cfg w acc d)"
  by (auto simp: scan_directory_def split: sum.splits)

lemma scan_directory_adds:
  assumes "\<not> is_protected_path cfg d" "scandir os w d = Inr entries"
    and "\<forall>e \<in> set entries. entry_is_file e
           \<and> (startswith (entry_name e) ''.'' \<or> startswith (entry_name e) ''~'')"
  shows "d \<in> set (scan_directory os cfg w acc d)"
  using assms has_real_content_hidden [of entries acc]
  by (simp add: scan_directory_def)

lemma scan_walk_mono:
  "set acc \<subseteq> set (foldl (\<lambda>acc triple. scan_directory os cfg w acc (fst triple)) acc triples)"
proof (induction triples arbitrary: acc)
  case Nil
  show ?case by simp
next
  case (Cons t ts)
  show ?case
    using Cons.IH [of "scan_directory os cfg w acc (fst t)"]
      scan_directory_mono [of acc os cfg w "fst t"]
    by auto
qed

lemma scan_walk_adds:
  assumes "(d, rest) \<in> set triples"
    and "\<not> is_protected_path cfg d" "scandir os w d = Inr entries"
    and "\<forall>e \<in> set entries. entry_is_file e
           \<and> (startswith (entry_name e) ''.'' \<or> startswith (entry_name e) ''~'')"
  shows "d \<in> set (foldl (\<lambda>acc triple. scan_directory os cfg w acc (fst triple)) acc triples)"
  using assms(1)
proof (induction triples arbitrary: acc)
  case Nil
  then show ?case by simp
next
  case (Cons t ts)
  show ?case
  proof (cases "t = (d, rest)")
    case True
    have "d \<in> set (scan_directory os cfg w acc d)"
      using assms(2-4) by (rule scan_directory_adds)
    then show ?thesis
      using scan_walk_mono [of "scan_directory os cfg w acc d" os cfg w ts] True
      by auto
  next
    case False
    with Cons.prems have "(d, rest) \<in> set ts" by simp
    from Cons.IH [OF this, of "scan_directory os cfg w acc (fst t)"] show ?thesis
      by simp
  qed
qed

lemma scan_roots_mono: "set acc \<subseteq> set (foldl (scan_root os cfg w) acc root_paths)"
proof (induction root_paths arbitrary: acc)
  case Nil
  show ?case by simp
next
  case (Cons r rs)
  have "set acc \<subseteq> set (scan_root os cfg w acc r)"
    unfolding scan_root_def by (rule scan_walk_mono)
  with Cons.IH [of "scan_root os cfg w acc r"] show ?case by auto
qed

lemma scan_roots_adds:
  assumes "root_path \<in> set root_paths"
    and "(d, rest) \<in> set (walk_bottom_up os w root_path)"
    and "\<not> is_protected_path cfg d" "scandir os w d = Inr entries"
    and "\<forall>e \<in> set entries. entry_is_file e
           \<and> (startswith (entry_name e) ''.'' \<or> startswith (entry_name e) ''~'')"
  shows "d \<in> set (foldl (scan_root os cfg w) acc root_paths)"
  using assms(1)
proof (induction root_paths arbitrary: acc)
  case Nil
  then show ?case by simp
next
  case (Cons r rs)
  show ?case
  proof (cases "r = root_path")
    case True
    have "d \<in> set (scan_root os cfg w acc root_path)"
      unfolding scan_root_def using assms(2-5) by (rule scan_walk_adds)
    then show ?thesis
      using scan_roots_mono [of "scan_root os cfg w acc root_path" os cfg w rs] True
      by auto
  next
    case False
    with Cons.prems have "root_path \<in> set rs" by simp
    from Cons.IH [OF this] show ?thesis by simp
  qed
qed

lemma remove_candidate_nonempty:
  "scandir os w d = Inr entries \<Longrightarrow> entries \<noteq> [] \<Longrightarrow>
   remove_candidate os (w, removed, failed) d = (w, removed, failed)"
  by (simp add: remove_candidate_def)

lemma remove_candidate_removed:
  "fst (snd (remove_candidate os (w, removed, failed) d)) \<noteq> removed \<Longrightarrow>
   path_exists os w d \<and> scandir os w d = Inr []
   \<and> fst (snd (remove_candidate os (w, removed, failed) d)) = removed + 1"
  by (auto simp: remove_candidate_def split: if_splits sum.splits prod.splits option.splits)

lemma remove_candidate_world:
  "fst (remove_candidate os (w, removed, failed) d) \<noteq> w \<Longrightarrow>
   path_exists os w d \<and> scandir os w d = Inr []"
  by (auto simp: remove_candidate_def split: if_splits sum.splits prod.splits option.splits)

text \<open>In the small file system a directory that holds a regular file outlives the reaper,
  with the file.\<close>

lemma map_of_filter_key:
  "map_of (filter (\<lambda>(p, n). p \<noteq> x) ns) k = (if k = x then None else map_of ns k)"
  by (induction ns) auto

lemma holds_file_children: "holds_file w d f \<Longrightarrow> sim_children w d \<noteq> []"
proof -
  assume h: "holds_file w d f"
  then obtain n where n: "map_of (nodes w) f = Some n"
    by (auto simp: holds_file_def sim_lookup_def split: option.splits)
  then have "(f, n) \<in> set (nodes w)" by (rule map_of_SomeD)
  with h have "(f, n) \<in> set (sim_children w d)"
    by (auto simp: sim_children_def holds_file_def)
  then show ?thesis by auto
qed

lemma sim_rmdir_holds_file:
  assumes "holds_file w d f"
  shows "holds_file (fst (sim_rmdir w p)) d f"
proof (cases "sim_lookup w p = Some Directory \<and> sim_children w p = []")
  case False
  then have "fst (sim_rmdir w p) = w"
    by (auto simp: sim_rmdir_def split: option.splits node.splits)
  with assms show ?thesis by simp
next
  case True
  with assms holds_file_children [OF assms] have pd: "p \<noteq> d" by auto
  from True assms have pf: "p \<noteq> f"
    by (auto simp: holds_file_def split: option.splits node.splits)
  from True have "nodes (fst (sim_rmdir w p)) = filter (\<lambda>(q, n). q \<noteq> p) (nodes w)"
    by (simp add: sim_rmdir_def)
  then have "\<And>k. sim_lookup (fst (sim_rmdir w p)) k = (if k = p then None else sim_lookup w k)"
    by (simp add: sim_lookup_def map_of_filter_key)
  with assms pd pf show ?thesis by (simp add: holds_file_def)
qed

lemma remove_candidate_holds_file:
  assumes "holds_file (fst st) d f"
  shows "holds_file (fst (remove_candidate sim_os st c)) d f"
proof -
  obtain w r q where st: "st = (w, r, q)" by (cases st) auto
  have "fst (remove_candidate sim_os (w, r, q) c) = w
        \<or> fst (remove_candidate sim_os (w, r, q) c) = fst (sim_rmdir w c)"
    by (auto simp: remove_candidate_def sim_os_def split: sum.splits prod.splits option.splits)
  with assms st sim_rmdir_holds_file [of w d f c] show ?thesis by auto
qed

lemma removal_steps_hold_file:
  "holds_file (fst st) d f \<Longrightarrow> holds_file (fst (foldl (remove_candidate sim_os) st cs)) d f"
  by (induction cs arbitrary: st) (simp_all add: remove_candidate_holds_file)

lemma reap_passes_hold_file:
  "holds_file w d f \<Longrightarrow> holds_file (fst (reap_passes sim_os cfg sources n (w, tot))) d f"
proof (induction n arbitrary: w tot)
  case 0
  then show ?case by simp
next
  case (Suc n)
  let ?e = "scan_for_empty_directories sim_os cfg w sources"
  obtain w1 r q where p: "removal_pass sim_os w ?e = (w1, r, q)"
    by (cases "removal_pass sim_os w ?e") auto
  have "holds_file (fst (removal_pass sim_os w ?e)) d f"
    unfolding removal_pass_def using Suc.prems by (intro removal_steps_hold_file) simp
  with p have h1: "holds_file w1 d f" by simp
  from Suc.IH [OF h1] Suc.prems h1 p show ?case
    by (simp add: Let_def)
qed

text \<open>
  Claim C10, as the code has it: a directory that the walk reaches, that the Path Guard does
  not veto and whose entries are all hidden files is put into the candidate set by the scan.  In the removal
  pass a candidate with at least one entry is left alone (the step changes nothing), a
  directory is counted as removed only when it exists and its listing is empty immediately
  before, and the world changes only in that case; in the small file system a directory
  that holds a regular file is therefore still there, with the file, after all passes.
\<close>

theorem hidden_only_directory_scanned_not_removed:
  "(root_path \<in> set root_paths \<and> (d, subdirs, files) \<in> set (walk_bottom_up os w root_path)
      \<and> \<not> is_protected_path cfg d \<and> scandir os w d = Inr entries
      \<and> (\<forall>e \<in> set entries. entry_is_file e
            \<and> (startswith (entry_name e) ''.'' \<or> startswith (entry_name e) ''~''))
      \<longrightarrow> d \<in> set (scan_for_empty_directories os cfg w root_paths))
   \<and> (scandir os w1 c = Inr entries \<and> entries \<noteq> []
        \<longrightarrow> remove_candidate os (w1, removed, failed) c = (w1, removed, failed))
   \<and> (fst (snd (remove_candidate os (w1, removed, failed) c)) \<noteq> removed
        \<longrightarrow> path_exists os w1 c \<and> scandir os w1 c = Inr []
            \<and> fst (snd (remove_candidate os (w1, removed, failed) c)) = removed + 1)
   \<and> (fst (remove_candidate os (w1, removed, failed) c) \<noteq> w1
        \<longrightarrow> path_exists os w1 c \<and> scandir os w1 c = Inr [])
   \<and> (holds_file sw sd sf
        \<longrightarrow> holds_file
              (fst (snd (remove_empty_directories_recursive sim_os cfg org sw sources n))) sd sf)"
proof -
  have a: "root_path \<in> set root_paths \<and> (d, subdirs, files) \<in> set (walk_bottom_up os w root_path)
      \<and> \<not> is_protected_path cfg d \<and> scandir os w d = Inr entries
      \<and> (\<forall>e \<in> set entries. entry_is_file e
            \<and> (startswith (entry_name e) ''.'' \<or> startswith (entry_name e) ''~''))
      \<longrightarrow> d \<in> set (scan_for_empty_directories os cfg w root_paths)"
    unfolding scan_for_empty_directories_def
  proof (intro impI, elim conjE)
    assume "root_path \<in> set root_paths"
      "(d, subdirs, files) \<in> set (walk_bottom_up os w root_path)"
      "\<not> is_protected_path cfg d" "scandir os w d = Inr entries"
      "\<forall>e \<in> set entries. entry_is_file e
            \<and> (startswith (entry_name e) ''.'' \<or> startswith (entry_name e) ''~'')"
    then show "d \<in> set (foldl (scan_root os cfg w) [] root_paths)"
      by (rule scan_roots_adds)
  qed
  have b: "scandir os w1 c = Inr entries \<and> entries \<noteq> []
        \<longrightarrow> remove_candidate os (w1, removed, failed) c = (w1, removed, failed)"
    by (intro impI, elim conjE) (rule remove_candidate_nonempty)
  have c: "fst (snd (remove_candidate os (w1, removed, failed) c)) \<noteq> removed
        \<longrightarrow> path_exists os w1 c \<and> scandir os w1 c = Inr []
            \<and> fst (snd (remove_candidate os (w1, removed, failed) c)) = removed + 1"
    by (rule impI) (rule remove_candidate_removed)
  have d: "fst (remove_candidate os (w1, removed, failed) c) \<noteq> w1
        \<longrightarrow> path_exists os w1 c \<and> scandir os w1 c = Inr []"
    by (rule impI) (rule remove_candidate_world)
  have e: "holds_file sw sd sf
        \<longrightarrow> holds_file
              (fst (snd (remove_empty_directories_recursive sim_os cfg org sw sources n))) sd sf"
  proof
    assume h: "holds_file sw sd sf"
    obtain w2 t where r: "reap_passes sim_os cfg sources n (sw, 0) = (w2, t)"
      by (cases "reap_passes sim_os cfg sources n (sw, 0)") auto
    have "fst (snd (remove_empty_directories_recursive sim_os cfg org sw sources n)) = w2"
      by (simp add: remove_empty_directories_recursive_def r)
    moreover have "holds_file w2 sd sf"
      using reap_passes_hold_file [OF h, of cfg sources n 0] r by simp
    ultimately show "holds_file
        (fst (snd (remove_empty_directories_recursive sim_os cfg org sw sources n))) sd sf"
      by simp
  qed
  show ?thesis by (rule conjI [OF a conjI [OF b conjI [OF c conjI [OF d e]]]])
qed

lemma hidden_world_facts:
  "(''/a/keep'', [], [''.gitkeep'']) \<in> set (walk_bottom_up sim_os hidden_world ''/a'')
   \<and> \<not> is_protected_path default_config ''/a/keep''
   \<and> scandir sim_os hidden_world ''/a/keep''
       = Inr [\<lparr>entry_name = ''.gitkeep'', entry_path = ''/a/keep/.gitkeep'',
               entry_is_file = True, entry_is_dir = False\<rparr>]
   \<and> startswith ''.gitkeep'' ''.''
   \<and> holds_file hidden_world ''/a/keep'' ''/a/keep/.gitkeep''
   \<and> \<not> sim_exists (fst (snd (remove_empty_directories_recursive sim_os default_config
                                init_organizer hidden_world [''/a''] 10))) ''/a/empty''"
  by code_simp

text \<open>The theorem on a source root with a folder that holds only \<^verbatim>\<open>.gitkeep\<close> and an empty
  folder: the first is a candidate and is still there after the reaper, the second is
  removed.\<close>

theorem hidden_only_directory_scanned_not_removed_witness:
  "''/a/keep'' \<in> set (scan_for_empty_directories sim_os default_config hidden_world [''/a''])
   \<and> holds_file (fst (snd (remove_empty_directories_recursive sim_os default_config
                             init_organizer hidden_world [''/a''] 10)))
        ''/a/keep'' ''/a/keep/.gitkeep''
   \<and> \<not> sim_exists (fst (snd (remove_empty_directories_recursive sim_os default_config
                                init_organizer hidden_world [''/a''] 10))) ''/a/empty''"
proof -
  let ?e = "\<lparr>entry_name = ''.gitkeep'', entry_path = ''/a/keep/.gitkeep'',
             entry_is_file = True, entry_is_dir = False\<rparr>"
  let ?after = "fst (snd (remove_empty_directories_recursive sim_os default_config
                            init_organizer hidden_world [''/a''] 10))"
  from hidden_world_facts
  have f1: "(''/a/keep'', [], [''.gitkeep'']) \<in> set (walk_bottom_up sim_os hidden_world ''/a'')"
    by (elim conjE)
  from hidden_world_facts
  have f2: "\<not> is_protected_path default_config ''/a/keep''"
    by (elim conjE)
  from hidden_world_facts
  have f3: "scandir sim_os hidden_world ''/a/keep'' = Inr [?e]"
    by (elim conjE)
  from hidden_world_facts
  have f4: "startswith ''.gitkeep'' ''.''"
    by (elim conjE)
  from hidden_world_facts
  have f5: "holds_file hidden_world ''/a/keep'' ''/a/keep/.gitkeep''"
    by (elim conjE)
  from hidden_world_facts
  have f6: "\<not> sim_exists ?after ''/a/empty''"
    by (elim conjE)
  have h: "\<forall>e \<in> set [?e]. entry_is_file e
             \<and> (startswith (entry_name e) ''.'' \<or> startswith (entry_name e) ''~'')"
    using f4 by simp
  have r: "''/a'' \<in> set [''/a'']" by simp
  note t = hidden_only_directory_scanned_not_removed
    [where root_path = "''/a''" and root_paths = "[''/a'']" and d = "''/a/keep''"
       and subdirs = "[]" and files = "[''.gitkeep'']" and os = sim_os and w = hidden_world
       and cfg = default_config and entries = "[?e]"
       and sw = hidden_world and sd = "''/a/keep''" and sf = "''/a/keep/.gitkeep''"
       and org = init_organizer and sources = "[''/a'']" and n = 10]
  have a: "''/a/keep'' \<in> set (scan_for_empty_directories sim_os default_config hidden_world
                                [''/a''])"
    by (rule mp [OF conjunct1 [OF t]]) (intro conjI r f1 f2 f3 h)
  have b: "holds_file ?after ''/a/keep'' ''/a/keep/.gitkeep''"
    by (rule mp [OF conjunct2 [OF conjunct2 [OF conjunct2 [OF conjunct2 [OF t]]]]]) (rule f5)
  show ?thesis by (intro conjI a b f6)
qed

text \<open>
  Claim C10 as stated fails for a directory that the Path Guard vetoes: \<^verbatim>\<open>/a/bootcamp\<close>
  holds only the hidden file \<^verbatim>\<open>.gitkeep\<close> and is reached by the walk, but its path contains
  \<^verbatim>\<open>boot\<close>, so the scan passes over it and it is not in the candidate set.
\<close>

theorem hidden_only_directory_guarded_counterexample:
  "(''/a/bootcamp'', [], [''.gitkeep'']) \<in> set (walk_bottom_up sim_os guarded_world ''/a'')
   \<and> scandir sim_os guarded_world ''/a/bootcamp''
       = Inr [\<lparr>entry_name = ''.gitkeep'', entry_path = ''/a/bootcamp/.gitkeep'',
               entry_is_file = True, entry_is_dir = False\<rparr>]
   \<and> startswith ''.gitkeep'' ''.''
   \<and> is_protected_path default_config ''/a/bootcamp''
   \<and> ''/a/bootcamp'' \<notin> set (scan_for_empty_directories sim_os default_config guarded_world
                                [''/a''])
   \<and> ''/a/keep'' \<in> set (scan_for_empty_directories sim_os default_config guarded_world
                            [''/a''])"
  by code_simp

text \<open>
  Claim C3 on \<^verbatim>\<open>scan_for_empty_directories\<close> of \<^verbatim>\<open>enhanced_file_organizer.py\<close>: for the
  single root \<^verbatim>\<open>/a\<close>, an empty directory, the scan returns the root itself, and after
  \<^verbatim>\<open>remove_empty_directories_recursive\<close> the root is gone.
\<close>

theorem scan_for_empty_directories_marks_root:
  "scan_for_empty_directories sim_os default_config empty_root_world [''/a''] = [''/a'']
   \<and> sim_isdir empty_root_world ''/a''
   \<and> \<not> sim_exists (fst (snd (remove_empty_directories_recursive sim_os default_config
                                init_organizer empty_root_world [''/a''] 10))) ''/a''"
  by code_simp

text \<open>The scan of the improved engine never marks the root it is walking, so a single root
  is never in its result; a root that lies inside another root is marked while the outer
  root is walked.\<close>

lemma scan_root_improved_skips_root:
  "r \<notin> set acc \<Longrightarrow> r \<notin> set (scan_root_improved os cfg w acc r)"
proof -
  have "\<And>acc. r \<notin> set acc \<Longrightarrow>
      r \<notin> set (foldl (\<lambda>acc triple. scan_directory_improved os cfg w r acc (fst triple))
                  acc triples)" for triples
  proof (induction triples)
    case Nil
    then show ?case by simp
  next
    case (Cons t ts)
    from Cons.prems have "r \<notin> set (scan_directory_improved os cfg w r acc (fst t))"
      by (auto simp: scan_directory_improved_def split: sum.splits)
    from Cons.IH [OF this] show ?case by simp
  qed
  then show "r \<notin> set acc \<Longrightarrow> r \<notin> set (scan_root_improved os cfg w acc r)"
    unfolding scan_root_improved_def by blast
qed

lemma scan_improved_single_root:
  "r \<notin> set (scan_for_empty_directories_improved os cfg w [r])"
  by (simp add: scan_for_empty_directories_improved_def scan_root_improved_skips_root)

lemma scan_improved_examples:
  "scan_for_empty_directories_improved sim_os improved_config empty_root_world [''/a''] = []
   \<and> scan_for_empty_directories_improved sim_os improved_config nested_root_world
        [''/a/b'', ''/a''] = [''/a/b'']"
  by code_simp

end
